theory Spec2Isabelle
  imports Main
begin

section \<open>Entrance animations of amp-story pages (extensions/amp-story/0.1/animation.js)\<close>

text \<open>
  The file coordinates promise callbacks on a single JavaScript thread. The model is a
  deterministic step function on a state record: every closure of the source that is handed
  to \<^verbatim>\<open>then\<close> is a constructor of \<open>cont\<close>, promises are numbers with a set of
  resolved ones, reactions wait on a pending promise and the microtask queue is first-in
  first-out. Calls of the public methods, a microtask tick and everything the host does
  (the runner promise resolving, a timer elapsing, a play state change, another runner
  using the shared sequence, the vsync phases) are events, in any order.

  One state holds one runner together with the sequence it shares; the other runners of
  the page appear as the events that call \<^verbatim>\<open>waitFor\<close> and \<^verbatim>\<open>notifyFinish\<close>. The host
  runner's play state changes by an event only, whenever the host decides. A promise
  returned by a callback is adopted in the same microtask. A callback that throws leaves
  its promise pending: rejections are not followed, the source handles none. Every call
  the runner makes on the host, the sequence, the timer and the element's style is appended
  to the log \<open>effects\<close>.
\<close>

subsection \<open>Data\<close>

datatype PlaybackActivity = START | FINISH

text \<open>
  Modelled from the spec: \<^verbatim>\<open>WebAnimationPlayState\<close> is imported from
  amp-animation/0.1/web-animation-types; the source only compares against RUNNING and
  FINISHED.
\<close>

datatype WebAnimationPlayState = IDLE | PENDING | RUNNING | PAUSED | FINISHED

type_synonym pid = nat

type_synonym frameDef = "(string \<times> string) list"

record StoryAnimationDimsDef =
  pageWidth :: int
  pageHeight :: int
  targetWidth :: int
  targetHeight :: int
  targetX :: int
  targetY :: int

datatype KeyframesOrFilterFnDef =
    KeyframesArray "frameDef list"
  | KeyframesFn "StoryAnimationDimsDef \<Rightarrow> frameDef list"

text \<open>
  A number that may be missing: \<open>None\<close> stands for an absent property, \<^verbatim>\<open>undefined\<close>
  or \<^verbatim>\<open>NaN\<close>, all of them falsy; milliseconds are integers.
\<close>

record StoryAnimationPresetDef =
  preset_keyframes :: KeyframesOrFilterFnDef
  preset_duration :: "int option"
  preset_delay :: "int option"
  preset_easing :: string

record Element =
  tagName :: string
  el_id :: string
  attributes :: "(string \<times> string) list"

record StoryAnimationDef =
  def_target :: Element
  def_preset :: StoryAnimationPresetDef
  def_duration :: "int option"
  def_delay :: "int option"
  def_startAfterId :: "string option"

datatype logArg = ArgStr string | ArgEl Element

text \<open>
  \<^verbatim>\<open>user().assert\<close> and \<^verbatim>\<open>dev().assert\<close> throw; the error keeps the
  format string and the arguments of the call.
\<close>

datatype error = UserError string "logArg list" | DevError string

datatype cont =
    CWaitFor string pid
  | CTimer pid
  | CAdopt pid
  | CPlayback PlaybackActivity
  | CApplyFirstFrame pid
  | CResetFirstFrame
  | CAssertOffset

datatype effect =
    HostStart | HostResume | HostFinish | HostCancel
  | NotifyFinish string
  | WaitResolved string
  | TimerPromise int
  | SetStyle string string
  | ResetStyles "string list"

datatype vsyncTask = MutApply pid frameDef | MutReset "string list"

record world =
  target :: Element
  animationDef :: StoryAnimationDef
  presetDef :: StoryAnimationPresetDef
  delay :: int
  duration :: int
  keyframes :: "frameDef list option"
  runner :: bool
  scheduledActivity :: "PlaybackActivity option"
  scheduledWait :: "pid option"
  runnerReset :: bool
  firstFrameApplied :: bool
  subscriptionPromises :: "string \<rightharpoonup> pid"
  subscriptionResolvers :: "string \<rightharpoonup> pid"
  resolved :: "pid set"
  reactions :: "(pid \<times> cont) list"
  microtasks :: "cont list"
  nextPid :: pid
  timers :: "pid list"
  vsyncQueue :: "vsyncTask list"
  playState :: WebAnimationPlayState
  effects :: "effect list"

subsection \<open>Promises\<close>

definition newPromise :: "world \<Rightarrow> pid \<times> world" where
  "newPromise w = (nextPid w, w\<lparr>nextPid := Suc (nextPid w)\<rparr>)"

definition promiseResolve :: "world \<Rightarrow> pid \<times> world" where
  "promiseResolve w =
     (nextPid w, w\<lparr>nextPid := Suc (nextPid w), resolved := insert (nextPid w) (resolved w)\<rparr>)"

definition promiseThen :: "pid \<Rightarrow> cont \<Rightarrow> world \<Rightarrow> world" where
  "promiseThen p k w =
     (if p \<in> resolved w then w\<lparr>microtasks := microtasks w @ [k]\<rparr>
      else w\<lparr>reactions := reactions w @ [(p, k)]\<rparr>)"

definition resolve :: "pid \<Rightarrow> world \<Rightarrow> world" where
  "resolve p w =
     (if p \<in> resolved w then w
      else w\<lparr>resolved := insert p (resolved w),
             microtasks := microtasks w @ map snd (filter (\<lambda>r. fst r = p) (reactions w)),
             reactions := filter (\<lambda>r. fst r \<noteq> p) (reactions w)\<rparr>)"

subsection \<open>AnimationSequence\<close>

text \<open>
  The log records every call of \<^verbatim>\<open>notifyFinish\<close> and, apart from it, every call of a
  resolver.
\<close>

definition notifyFinish :: "string \<Rightarrow> world \<Rightarrow> error + world" where
  "notifyFinish i w0 =
     (let w = w0\<lparr>effects := effects w0 @ [NotifyFinish i]\<rparr> in
      if subscriptionPromises w i \<noteq> None then
        (case subscriptionResolvers w i of
           None \<Rightarrow> Inl (DevError ''Assertion failed'')
         | Some r \<Rightarrow>
             Inr ((resolve r (w\<lparr>effects := effects w @ [WaitResolved i]\<rparr>))
                    \<lparr>subscriptionPromises := (subscriptionPromises w)(i := None)\<rparr>))
      else Inr w)"

definition waitFor :: "string \<Rightarrow> world \<Rightarrow> pid \<times> world" where
  "waitFor i w =
     (case subscriptionPromises w i of
        None \<Rightarrow>
          (let (p, w1) = newPromise w in
           (p, w1\<lparr>subscriptionResolvers := (subscriptionResolvers w1)(i \<mapsto> p),
                  subscriptionPromises := (subscriptionPromises w1)(i \<mapsto> p)\<rparr>))
      | Some p \<Rightarrow> (p, w))"

subsection \<open>AnimationRunner\<close>

text \<open>The promise \<^verbatim>\<open>keyframes_\<close> is promise 0 of every runner.\<close>

definition keyframesPromise :: pid where
  "keyframesPromise = 0"

definition getCssProps :: "frameDef \<Rightarrow> string list" where
  "getCssProps frame = filter (\<lambda>k. k \<noteq> ''offset'') (map fst frame)"

definition logEffect :: "effect \<Rightarrow> world \<Rightarrow> world" where
  "logEffect e w = w\<lparr>effects := effects w @ [e]\<rparr>"

text \<open>
  \<^verbatim>\<open>if (!opt_activity)\<close> holds when the argument is left out and also when it is
  START, whose value is 0.
\<close>

definition isActivityScheduled :: "PlaybackActivity option \<Rightarrow> world \<Rightarrow> bool" where
  "isActivityScheduled opt_activity w =
     (case opt_activity of
        None \<Rightarrow> scheduledActivity w \<noteq> None
      | Some START \<Rightarrow> scheduledActivity w \<noteq> None
      | Some FINISH \<Rightarrow> scheduledActivity w = Some FINISH)"

definition hasStarted :: "world \<Rightarrow> bool" where
  "hasStarted w =
     (isActivityScheduled (Some START) w \<or> (runner w \<and> playState w = RUNNING))"

definition runner_notifyFinish :: "world \<Rightarrow> error + world" where
  "runner_notifyFinish w =
     (if el_id (target w) \<noteq> [] then notifyFinish (el_id (target w)) w else Inr w)"

definition applyFirstFrame :: "world \<Rightarrow> pid \<times> world" where
  "applyFirstFrame w =
     (if firstFrameApplied w then promiseResolve w
      else
        (let (p, w1) = newPromise (w\<lparr>firstFrameApplied := True\<rparr>)
         in (p, promiseThen keyframesPromise (CApplyFirstFrame p) w1)))"

definition resetFirstFrame :: "world \<Rightarrow> world" where
  "resetFirstFrame w =
     (if \<not> firstFrameApplied w then w
      else promiseThen keyframesPromise CResetFirstFrame (w\<lparr>firstFrameApplied := False\<rparr>))"

definition getStartWaitPromise :: "world \<Rightarrow> pid \<times> world" where
  "getStartWaitPromise w =
     (let (p0, w0) = promiseResolve w;
          (p1, w1) =
            (case def_startAfterId (animationDef w0) of
               None \<Rightarrow> (p0, w0)
             | Some startAfterId \<Rightarrow>
                 if startAfterId \<noteq> [] then
                   (let (q, v) = newPromise w0 in (q, promiseThen p0 (CWaitFor startAfterId q) v))
                 else (p0, w0))
      in if delay w1 \<noteq> 0 then
           (let (q, v) = newPromise w1 in (q, promiseThen p1 (CTimer q) v))
         else (p1, w1))"

definition startWhenReady :: "world \<Rightarrow> world" where
  "startWhenReady w =
     (let shouldStart = runnerReset w;
          w1 = resetFirstFrame (w\<lparr>runnerReset := False\<rparr>)
      in if shouldStart then logEffect HostStart w1 else logEffect HostResume w1)"

definition finishWhenReady :: "world \<Rightarrow> world" where
  "finishWhenReady w =
     (if playState w = RUNNING then (logEffect HostFinish w)\<lparr>runnerReset := True\<rparr> else w)"

definition cancel :: "world \<Rightarrow> error + world" where
  "cancel w =
     (let w1 = w\<lparr>scheduledActivity := None, scheduledWait := None\<rparr>
      in if hasStarted w1 then
           (if runner w1 then Inr ((logEffect HostCancel w1)\<lparr>runnerReset := True\<rparr>)
            else Inl (DevError ''Assertion failed''))
         else Inr w1)"

definition playbackWhenReady :: "PlaybackActivity \<Rightarrow> pid option \<Rightarrow> world \<Rightarrow> error + world" where
  "playbackWhenReady activity wait w =
     (if \<not> runner w then
        Inl (DevError ''Tried to execute playbackWhenReady_ before runner was resolved.'')
      else
        (case wait of
           None \<Rightarrow> (let (p, w1) = promiseResolve w in Inr (promiseThen p (CPlayback activity) w1))
         | Some p \<Rightarrow> Inr (promiseThen p (CPlayback activity) w)))"

definition playback :: "PlaybackActivity \<Rightarrow> pid option \<Rightarrow> world \<Rightarrow> error + world" where
  "playback activity opt_wait w =
     (let w1 = w\<lparr>scheduledActivity := Some activity, scheduledWait := opt_wait\<rparr>
      in if runner w1 then playbackWhenReady activity opt_wait w1 else Inr w1)"

text \<open>The callback that \<^verbatim>\<open>playbackWhenReady_\<close> hands to \<^verbatim>\<open>then\<close>.\<close>

definition playbackCallback :: "PlaybackActivity \<Rightarrow> world \<Rightarrow> world" where
  "playbackCallback activity w =
     (if \<not> isActivityScheduled (Some activity) w then w
      else
        (let w1 = w\<lparr>scheduledActivity := None, scheduledWait := None\<rparr>
         in case activity of START \<Rightarrow> startWhenReady w1 | FINISH \<Rightarrow> finishWhenReady w1))"

definition start :: "world \<Rightarrow> error + world" where
  "start w =
     (if hasStarted w then Inr w
      else (let (p, w1) = getStartWaitPromise w in playback START (Some p) w1))"

definition finish :: "world \<Rightarrow> error + world" where
  "finish w =
     (case (if firstFrameApplied w then runner_notifyFinish w else Inr w) of
        Inl e \<Rightarrow> Inl e
      | Inr w1 \<Rightarrow> playback FINISH None (resetFirstFrame w1))"

definition onRunnerReady :: "world \<Rightarrow> error + world" where
  "onRunnerReady w =
     (let w1 = w\<lparr>runner := True\<rparr>
      in if \<not> isActivityScheduled None w1 then Inr w1
         else
           (case scheduledActivity w1 of
              None \<Rightarrow> Inr w1
            | Some activity \<Rightarrow> playbackWhenReady activity (scheduledWait w1) w1))"

text \<open>\<^verbatim>\<open>declared || preset || 0\<close> on numbers that may be missing.\<close>

definition truthyNum :: "int option \<Rightarrow> bool" where
  "truthyNum x = (case x of None \<Rightarrow> False | Some n \<Rightarrow> n \<noteq> 0)"

definition orDefault :: "int option \<Rightarrow> int option \<Rightarrow> int" where
  "orDefault declared preset =
     (case declared of
        Some n \<Rightarrow> if n \<noteq> 0 then n else (case preset of Some m \<Rightarrow> if m \<noteq> 0 then m else 0 | None \<Rightarrow> 0)
      | None \<Rightarrow> (case preset of Some m \<Rightarrow> if m \<noteq> 0 then m else 0 | None \<Rightarrow> 0))"

text \<open>
  The constructor. The sequence handed in is the one the manager has just created, so it
  starts empty; the runner promise is the event \<open>RunnerReady\<close> below.
\<close>

definition AnimationRunner_new :: "StoryAnimationDef \<Rightarrow> error + world" where
  "AnimationRunner_new d =
     (let w = \<lparr>target = def_target d,
                animationDef = d,
                presetDef = def_preset d,
                delay = orDefault (def_delay d) (preset_delay (def_preset d)),
                duration = orDefault (def_duration d) (preset_duration (def_preset d)),
                keyframes =
                  (case preset_keyframes (def_preset d) of
                     KeyframesArray a \<Rightarrow> Some a | KeyframesFn f \<Rightarrow> None),
                runner = False,
                scheduledActivity = None,
                scheduledWait = None,
                runnerReset = True,
                firstFrameApplied = False,
                subscriptionPromises = Map.empty,
                subscriptionResolvers = Map.empty,
                resolved =
                  (case preset_keyframes (def_preset d) of
                     KeyframesArray a \<Rightarrow> {keyframesPromise} | KeyframesFn f \<Rightarrow> {}),
                reactions = [],
                microtasks = [],
                nextPid = Suc keyframesPromise,
                timers = [],
                vsyncQueue = [],
                playState = IDLE,
                effects = []\<rparr>;
          w1 = promiseThen keyframesPromise CAssertOffset w
      in if 0 \<le> delay w1 then Inr w1
         else Inl (UserError ''Negative delays are not allowed in amp-story entrance animations.'' []))"

subsection \<open>Events\<close>

datatype event =
    CallApplyFirstFrame | CallStart | CallFinish | CallCancel
  | Tick
  | RunnerReady
  | Measure StoryAnimationDimsDef
  | VsyncMutate
  | TimerFire pid
  | PlayStateChanged WebAnimationPlayState
  | OtherNotifyFinish string
  | OtherWaitFor string

definition runCont :: "cont \<Rightarrow> world \<Rightarrow> world" where
  "runCont k w =
     (case k of
        CWaitFor i q \<Rightarrow> (let (p, w1) = waitFor i w in promiseThen p (CAdopt q) w1)
      | CTimer q \<Rightarrow>
          (let (p, w1) = newPromise w
           in promiseThen p (CAdopt q)
                (logEffect (TimerPromise (delay w1)) (w1\<lparr>timers := timers w1 @ [p]\<rparr>)))
      | CAdopt q \<Rightarrow> resolve q w
      | CPlayback activity \<Rightarrow> playbackCallback activity w
      | CApplyFirstFrame q \<Rightarrow>
          (case keyframes w of
             Some (firstFrameDef # rest) \<Rightarrow> w\<lparr>vsyncQueue := vsyncQueue w @ [MutApply q firstFrameDef]\<rparr>
           | _ \<Rightarrow> w)
      | CResetFirstFrame \<Rightarrow>
          (case keyframes w of
             Some (firstFrameDef # rest) \<Rightarrow>
               w\<lparr>vsyncQueue := vsyncQueue w @ [MutReset (getCssProps firstFrameDef)]\<rparr>
           | _ \<Rightarrow> w)
      | CAssertOffset \<Rightarrow> w)"

definition runMutation :: "vsyncTask \<Rightarrow> world \<Rightarrow> world" where
  "runMutation t w =
     (case t of
        MutApply q firstFrameDef \<Rightarrow>
          resolve q
            (w\<lparr>effects := effects w @
                 map (\<lambda>(k, v). SetStyle k v) (filter (\<lambda>(k, v). k \<noteq> ''offset'') firstFrameDef)\<rparr>)
      | MutReset props \<Rightarrow> logEffect (ResetStyles props) w)"

definition step :: "event \<Rightarrow> world \<Rightarrow> error + world" where
  "step ev w =
     (case ev of
        CallApplyFirstFrame \<Rightarrow> Inr (snd (applyFirstFrame w))
      | CallStart \<Rightarrow> start w
      | CallFinish \<Rightarrow> finish w
      | CallCancel \<Rightarrow> cancel w
      | Tick \<Rightarrow>
          (case microtasks w of [] \<Rightarrow> Inr w | k # ks \<Rightarrow> Inr (runCont k (w\<lparr>microtasks := ks\<rparr>)))
      | RunnerReady \<Rightarrow>
          (if keyframes w \<noteq> None \<and> \<not> runner w then onRunnerReady w else Inr w)
      | Measure dims \<Rightarrow>
          (case preset_keyframes (presetDef w) of
             KeyframesArray a \<Rightarrow> Inr w
           | KeyframesFn f \<Rightarrow>
               if keyframes w = None then Inr (resolve keyframesPromise (w\<lparr>keyframes := Some (f dims)\<rparr>))
               else Inr w)
      | VsyncMutate \<Rightarrow>
          (case vsyncQueue w of [] \<Rightarrow> Inr w | t # ts \<Rightarrow> Inr (runMutation t (w\<lparr>vsyncQueue := ts\<rparr>)))
      | TimerFire p \<Rightarrow>
          (if p \<in> set (timers w) then Inr (resolve p (w\<lparr>timers := removeAll p (timers w)\<rparr>))
           else Inr w)
      | PlayStateChanged st \<Rightarrow>
          (if runner w then
             (let w1 = w\<lparr>playState := st\<rparr>
              in if st = FINISHED then runner_notifyFinish w1 else Inr w1)
           else Inr w)
      | OtherNotifyFinish i \<Rightarrow> notifyFinish i w
      | OtherWaitFor i \<Rightarrow> Inr (snd (waitFor i w)))"

fun run :: "event list \<Rightarrow> world \<Rightarrow> error + world" where
  "run [] w = Inr w"
| "run (ev # evs) w = (case step ev w of Inl e \<Rightarrow> Inl e | Inr w1 \<Rightarrow> run evs w1)"

subsection \<open>AnimationManager\<close>

definition ANIMATE_IN_ATTRIBUTE_NAME :: string where
  "ANIMATE_IN_ATTRIBUTE_NAME = ''animate-in''"

definition ANIMATE_IN_DURATION_ATTRIBUTE_NAME :: string where
  "ANIMATE_IN_DURATION_ATTRIBUTE_NAME = ''animate-in-duration''"

definition ANIMATE_IN_DELAY_ATTRIBUTE_NAME :: string where
  "ANIMATE_IN_DELAY_ATTRIBUTE_NAME = ''animate-in-delay''"

definition ANIMATE_IN_AFTER_ATTRIBUTE_NAME :: string where
  "ANIMATE_IN_AFTER_ATTRIBUTE_NAME = ''animate-in-after''"

definition dquote :: char where
  "dquote = CHR 0x22"

definition apostrophe :: char where
  "apostrophe = CHR 0x27"

definition getAttribute :: "Element \<Rightarrow> string \<Rightarrow> string option" where
  "getAttribute el name = map_of (attributes el) name"

definition hasAttribute :: "Element \<Rightarrow> string \<Rightarrow> bool" where
  "hasAttribute el name = (getAttribute el name \<noteq> None)"

text \<open>
  The manager: \<open>root\<close> lists the elements below the root in document order, and
  \<open>scopedQuerySelector\<close> answers a selector query below the root as the imported
  \<^verbatim>\<open>scopedQuerySelector(this.root_, selector)\<close> does. The preset table and
  \<^verbatim>\<open>timeStrToMillis\<close> are imported by the source and are parameters here.
\<close>

record manager =
  root :: "Element list"
  scopedQuerySelector :: "string \<Rightarrow> Element option"
  runners :: "world list option"

definition getPreset :: "(string \<rightharpoonup> StoryAnimationPresetDef) \<Rightarrow> Element \<Rightarrow> error + StoryAnimationPresetDef" where
  "getPreset PRESETS el =
     (let name = (case getAttribute el ANIMATE_IN_ATTRIBUTE_NAME of None \<Rightarrow> ''null'' | Some n \<Rightarrow> n)
      in case PRESETS name of
           Some preset \<Rightarrow> Inr preset
         | None \<Rightarrow>
             Inl (UserError (''Invalid %s preset '' @ [dquote] @ ''%s'' @ [dquote] @ '' for element %s'')
                    [ArgStr ANIMATE_IN_ATTRIBUTE_NAME, ArgStr name, ArgEl el]))"

definition createAnimationDef ::
  "(string \<Rightarrow> int option) \<Rightarrow> manager \<Rightarrow> Element \<Rightarrow> StoryAnimationPresetDef \<Rightarrow> error + StoryAnimationDef" where
  "createAnimationDef timeStrToMillis m el preset =
     (let d0 = \<lparr>def_target = el, def_preset = preset, def_duration = None, def_delay = None,
                 def_startAfterId = None\<rparr>;
          d1 = (case getAttribute el ANIMATE_IN_DURATION_ATTRIBUTE_NAME of
                  Some v \<Rightarrow> d0\<lparr>def_duration := timeStrToMillis v\<rparr> | None \<Rightarrow> d0);
          d2 = (case getAttribute el ANIMATE_IN_DELAY_ATTRIBUTE_NAME of
                  Some v \<Rightarrow> d1\<lparr>def_delay := timeStrToMillis v\<rparr> | None \<Rightarrow> d1)
      in case getAttribute el ANIMATE_IN_AFTER_ATTRIBUTE_NAME of
           None \<Rightarrow> Inr d2
         | Some dependencyId \<Rightarrow>
             (case scopedQuerySelector m (''#'' @ dependencyId) of
                Some e \<Rightarrow> Inr (d2\<lparr>def_startAfterId := Some dependencyId\<rparr>)
              | None \<Rightarrow>
                  Inl (UserError
                         (''The attribute '' @ [apostrophe] @ ANIMATE_IN_AFTER_ATTRIBUTE_NAME @ [apostrophe]
                          @ '' in tag '' @ [apostrophe] @ tagName el @ [apostrophe]
                          @ '' is set to the invalid value '' @ [apostrophe] @ dependencyId @ [apostrophe]
                          @ ''. No children of parenting '' @ [apostrophe] @ ''amp-story-page'' @ [apostrophe]
                          @ '' exist with id '' @ dependencyId @ ''.'')
                         [])))"

definition createRunner ::
  "(string \<rightharpoonup> StoryAnimationPresetDef) \<Rightarrow> (string \<Rightarrow> int option) \<Rightarrow> manager \<Rightarrow> Element \<Rightarrow> error + world" where
  "createRunner PRESETS timeStrToMillis m el =
     (case getPreset PRESETS el of
        Inl e \<Rightarrow> Inl e
      | Inr preset \<Rightarrow>
          (case createAnimationDef timeStrToMillis m el preset of
             Inl e \<Rightarrow> Inl e
           | Inr d \<Rightarrow> AnimationRunner_new d))"

text \<open>\<^verbatim>\<open>Array.prototype.map\<close> with a callback that may throw.\<close>

fun mapE :: "('a \<Rightarrow> error + 'b) \<Rightarrow> 'a list \<Rightarrow> error + 'b list" where
  "mapE f [] = Inr []"
| "mapE f (x # xs) =
     (case f x of
        Inl e \<Rightarrow> Inl e
      | Inr y \<Rightarrow> (case mapE f xs of Inl e \<Rightarrow> Inl e | Inr ys \<Rightarrow> Inr (y # ys)))"

definition getOrCreateRunners ::
  "(string \<rightharpoonup> StoryAnimationPresetDef) \<Rightarrow> (string \<Rightarrow> int option) \<Rightarrow> manager \<Rightarrow> error + (world list \<times> manager)" where
  "getOrCreateRunners PRESETS timeStrToMillis m =
     (case runners m of
        Some rs \<Rightarrow> Inr (rs, m)
      | None \<Rightarrow>
          (case mapE (createRunner PRESETS timeStrToMillis m)
                  (filter (\<lambda>el. hasAttribute el ANIMATE_IN_ATTRIBUTE_NAME) (root m)) of
             Inl e \<Rightarrow> Inl e
           | Inr rs \<Rightarrow> Inr (rs, m\<lparr>runners := Some rs\<rparr>)))"

subsection \<open>Invariants of a runner\<close>

text \<open>
  The promises a continuation will resolve when it runs: the promise that \<^verbatim>\<open>then\<close>
  returned for a step of the start wait, and the one \<^verbatim>\<open>applyFirstFrame\<close> returned.
\<close>

fun waitTarget :: "cont \<Rightarrow> pid set" where
  "waitTarget (CWaitFor i q) = {q}"
| "waitTarget (CTimer q) = {q}"
| "waitTarget (CAdopt q) = {q}"
| "waitTarget k = {}"

fun applyTarget :: "cont \<Rightarrow> pid set" where
  "applyTarget (CApplyFirstFrame q) = {q}"
| "applyTarget k = {}"

fun taskTarget :: "vsyncTask \<Rightarrow> pid set" where
  "taskTarget (MutApply q f) = {q}"
| "taskTarget t = {}"

fun isPlayback :: "cont \<Rightarrow> bool" where
  "isPlayback (CPlayback a) = True"
| "isPlayback k = False"

fun isHostCall :: "effect \<Rightarrow> bool" where
  "isHostCall HostStart = True"
| "isHostCall HostResume = True"
| "isHostCall HostFinish = True"
| "isHostCall HostCancel = True"
| "isHostCall e = False"

definition conts :: "world \<Rightarrow> cont set" where
  "conts w = set (microtasks w) \<union> snd ` set (reactions w)"

definition waitTargets :: "world \<Rightarrow> pid set" where
  "waitTargets w = (\<Union>k \<in> conts w. waitTarget k)"

definition applyTargets :: "world \<Rightarrow> pid set" where
  "applyTargets w = (\<Union>k \<in> conts w. applyTarget k) \<union> (\<Union>t \<in> set (vsyncQueue w). taskTarget t)"

definition inFlight :: "world \<Rightarrow> pid set" where
  "inFlight w = ran (subscriptionPromises w)"

text \<open>
  What holds of every state: an in-flight wait of the sequence has its resolver, is pending
  and belongs to one id only; promise numbers in use are below the next one; no playback
  callback is registered and no host call made before the host runner has resolved.
\<close>

definition wellformed :: "world \<Rightarrow> bool" where
  "wellformed w \<longleftrightarrow>
     (\<forall>i p. subscriptionPromises w i = Some p \<longrightarrow> subscriptionResolvers w i = Some p)
   \<and> (\<forall>i j p. subscriptionPromises w i = Some p \<longrightarrow> subscriptionPromises w j = Some p \<longrightarrow> i = j)
   \<and> inFlight w \<inter> (resolved w \<union> {keyframesPromise} \<union> set (timers w) \<union> waitTargets w \<union> applyTargets w) = {}
   \<and> inFlight w \<union> resolved w \<union> set (timers w) \<union> waitTargets w \<union> applyTargets w \<subseteq> {..<nextPid w}
   \<and> keyframesPromise < nextPid w
   \<and> waitTargets w \<inter> applyTargets w = {}
   \<and> keyframesPromise \<notin> waitTargets w \<union> applyTargets w
   \<and> (\<not> runner w \<longrightarrow> (\<forall>k \<in> conts w. \<not> isPlayback k) \<and> (\<forall>e \<in> set (effects w). \<not> isHostCall e))"

text \<open>
  The runner declares a dependency and no \<^verbatim>\<open>notifyFinish\<close> has resolved a wait for it yet.
\<close>

definition blockedOn :: "string \<Rightarrow> world \<Rightarrow> bool" where
  "blockedOn dep w \<longleftrightarrow>
     def_startAfterId (animationDef w) = Some dep \<and> dep \<noteq> [] \<and> WaitResolved dep \<notin> set (effects w)"

definition microOK :: "string \<Rightarrow> cont \<Rightarrow> bool" where
  "microOK dep k \<longleftrightarrow>
     (case k of
        CPlayback a \<Rightarrow> a = FINISH
      | CTimer q \<Rightarrow> False
      | CAdopt q \<Rightarrow> False
      | CWaitFor i q \<Rightarrow> i = dep
      | _ \<Rightarrow> True)"

definition reactOK :: "string \<Rightarrow> world \<Rightarrow> pid \<Rightarrow> cont \<Rightarrow> bool" where
  "reactOK dep w p k \<longleftrightarrow>
     (case k of
        CPlayback a \<Rightarrow> a = START \<longrightarrow> p \<in> waitTargets w
      | CTimer q \<Rightarrow> p \<in> waitTargets w
      | CAdopt q \<Rightarrow> subscriptionPromises w dep = Some p
      | CWaitFor i q \<Rightarrow> False
      | _ \<Rightarrow> True)"

fun startEffect :: "effect \<Rightarrow> bool" where
  "startEffect HostStart = True"
| "startEffect HostResume = True"
| "startEffect (TimerPromise n) = True"
| "startEffect e = False"

text \<open>
  While the dependency has not been notified, every step of a start wait is pending, no
  timer has been asked for, and a START callback waits on such a pending step.
\<close>

definition waiting :: "string \<Rightarrow> world \<Rightarrow> bool" where
  "waiting dep w \<longleftrightarrow>
     waitTargets w \<inter> resolved w = {}
   \<and> timers w = []
   \<and> (\<forall>e \<in> set (effects w). \<not> startEffect e)
   \<and> (\<forall>k \<in> set (microtasks w). microOK dep k)
   \<and> (\<forall>r \<in> set (reactions w). reactOK dep w (fst r) (snd r))
   \<and> (scheduledActivity w = Some START \<longrightarrow>
        (\<exists>p. scheduledWait w = Some p \<and> p \<in> waitTargets w))"

definition runnerInv :: "world \<Rightarrow> bool" where
  "runnerInv w \<longleftrightarrow> wellformed w \<and> (\<forall>dep. blockedOn dep w \<longrightarrow> waiting dep w)"

subsection \<open>Auxiliary notions\<close>

text \<open>
  Side conditions under which registering a continuation keeps the invariant, the two
  steps of \<^verbatim>\<open>getStartWaitPromise_\<close> taken apart, and what the later theorems count.
\<close>

definition thenOK :: "world \<Rightarrow> pid \<Rightarrow> cont \<Rightarrow> bool" where
  "thenOK w p k \<longleftrightarrow>
     waitTarget k \<union> applyTarget k \<subseteq> {..<nextPid w} - inFlight w - {keyframesPromise}
   \<and> waitTarget k \<inter> applyTargets w = {} \<and> applyTarget k \<inter> waitTargets w = {}
   \<and> (isPlayback k \<longrightarrow> runner w)
   \<and> (\<forall>dep. blockedOn dep w \<longrightarrow> waitTarget k \<inter> resolved w = {} \<and>
         (if p \<in> resolved w then microOK dep k else reactOK dep w p k))"

definition depStep :: "pid \<times> world \<Rightarrow> pid \<times> world" where
  "depStep x =
     (case def_startAfterId (animationDef (snd x)) of
        None \<Rightarrow> x
      | Some startAfterId \<Rightarrow>
          if startAfterId \<noteq> [] then
            (nextPid (snd x), promiseThen (fst x) (CWaitFor startAfterId (nextPid (snd x))) (snd (newPromise (snd x))))
          else x)"

definition delayStep :: "pid \<times> world \<Rightarrow> pid \<times> world" where
  "delayStep x =
     (if delay (snd x) \<noteq> 0 then
        (nextPid (snd x), promiseThen (fst x) (CTimer (nextPid (snd x))) (snd (newPromise (snd x))))
      else x)"

definition waitOK :: "pid \<times> world \<Rightarrow> bool" where
  "waitOK x \<longleftrightarrow> runnerInv (snd x) \<and> fst x < nextPid (snd x) \<and> fst x \<notin> inFlight (snd x)
     \<and> (\<forall>dep. blockedOn dep (snd x) \<longrightarrow> fst x \<in> waitTargets (snd x))"

definition slotOK :: "PlaybackActivity \<Rightarrow> pid option \<Rightarrow> world \<Rightarrow> bool" where
  "slotOK a x w \<longleftrightarrow>
     (a = START \<longrightarrow> (\<forall>dep. blockedOn dep w \<longrightarrow> (\<exists>p. x = Some p \<and> p \<in> waitTargets w)))"

definition config :: "world \<Rightarrow> Element \<times> StoryAnimationDef \<times> StoryAnimationPresetDef \<times> int" where
  "config w = (target w, animationDef w, presetDef w, delay w)"

fun isApply :: "cont \<Rightarrow> bool" where
  "isApply (CApplyFirstFrame q) = True"
| "isApply k = False"

definition pendingApplies :: "world \<Rightarrow> nat" where
  "pendingApplies w = length (filter isApply (microtasks w @ map snd (reactions w)))"

fun isPlaybackCall :: "effect \<Rightarrow> bool" where
  "isPlaybackCall HostStart = True"
| "isPlaybackCall HostResume = True"
| "isPlaybackCall HostFinish = True"
| "isPlaybackCall e = False"

definition playbackCalls :: "world \<Rightarrow> effect list" where
  "playbackCalls w = filter isPlaybackCall (effects w)"

definition quiet :: "world \<Rightarrow> bool" where
  "quiet w \<longleftrightarrow> scheduledActivity w = None \<and> (\<forall>k \<in> conts w. \<not> isPlayback k) \<and> playbackCalls w = []"

definition reactPending :: "world \<Rightarrow> bool" where
  "reactPending w \<longleftrightarrow>
     (\<forall>r \<in> set (reactions w). fst r \<notin> resolved w \<and> fst r < nextPid w)
   \<and> (\<forall>p. scheduledWait w = Some p \<longrightarrow> p < nextPid w)"

subsection \<open>The wait of one call of start\<close>

text \<open>
  A set \<open>B\<close> of pending promises is held when nothing can resolve a member except through
  a gate. The gates are the wait in flight for the id \<open>gd\<close>, if one is named, and the timers
  numbered from \<open>gt\<close> on, if a number is given. A microtask must not adopt a member; a
  registered adoption of a member waits on a member or on a gate; the step that asks the
  timer for a member waits on a member unless timers are a gate; the step that asks the
  sequence for a member asks for \<open>gd\<close>.
\<close>

definition timerGate :: "pid option \<Rightarrow> world \<Rightarrow> pid \<Rightarrow> bool" where
  "timerGate gt w t \<longleftrightarrow> (case gt of None \<Rightarrow> False | Some n0 \<Rightarrow> t \<in> set (timers w) \<and> n0 \<le> t)"

definition depGate :: "string option \<Rightarrow> world \<Rightarrow> pid \<Rightarrow> bool" where
  "depGate gd w p \<longleftrightarrow> (case gd of None \<Rightarrow> False | Some dep \<Rightarrow> subscriptionPromises w dep = Some p)"

definition heldMicro :: "string option \<Rightarrow> pid option \<Rightarrow> pid set \<Rightarrow> cont \<Rightarrow> bool" where
  "heldMicro gd gt B k \<longleftrightarrow>
     (case k of
        CAdopt q \<Rightarrow> q \<notin> B
      | CTimer q \<Rightarrow> q \<in> B \<longrightarrow> gt \<noteq> None
      | CWaitFor i q \<Rightarrow> q \<in> B \<longrightarrow> gd = Some i
      | _ \<Rightarrow> True)"

definition heldReact :: "string option \<Rightarrow> pid option \<Rightarrow> pid set \<Rightarrow> world \<Rightarrow> pid \<Rightarrow> cont \<Rightarrow> bool" where
  "heldReact gd gt B w p k \<longleftrightarrow>
     (case k of
        CAdopt q \<Rightarrow> q \<in> B \<longrightarrow> p \<in> B \<or> depGate gd w p \<or> timerGate gt w p
      | CTimer q \<Rightarrow> q \<in> B \<longrightarrow> p \<in> B \<or> gt \<noteq> None
      | CWaitFor i q \<Rightarrow> q \<in> B \<longrightarrow> gd = Some i
      | _ \<Rightarrow> True)"

definition held :: "string option \<Rightarrow> pid option \<Rightarrow> pid set \<Rightarrow> world \<Rightarrow> bool" where
  "held gd gt B w \<longleftrightarrow>
     B \<subseteq> {..<nextPid w}
   \<and> (\<forall>n0. gt = Some n0 \<longrightarrow> n0 \<le> nextPid w)
   \<and> B \<inter> (resolved w \<union> inFlight w \<union> set (timers w) \<union> applyTargets w \<union> {keyframesPromise}) = {}
   \<and> (\<forall>t. timerGate gt w t \<longrightarrow> t \<notin> resolved w \<union> waitTargets w \<union> applyTargets w \<union> {keyframesPromise})
   \<and> (\<forall>k \<in> set (microtasks w). heldMicro gd gt B k)
   \<and> (\<forall>r \<in> set (reactions w). heldReact gd gt B w (fst r) (snd r))"



text \<open>How many times \<^verbatim>\<open>notifyFinish\<close> has resolved a wait for \<open>dep\<close>.\<close>

definition resolvedWaits :: "string \<Rightarrow> world \<Rightarrow> nat" where
  "resolvedWaits dep w = count_list (effects w) (WaitResolved dep)"

text \<open>From \<open>w\<close> to \<open>w'\<close> a reaction is removed only when its promise is resolved.\<close>

definition keptReact :: "world \<Rightarrow> world \<Rightarrow> bool" where
  "keptReact w w' \<longleftrightarrow>
     resolved w \<subseteq> resolved w' \<and> nextPid w \<le> nextPid w'
   \<and> (\<forall>r \<in> set (reactions w). fst r \<notin> resolved w' \<longrightarrow> r \<in> set (reactions w'))"

subsection \<open>Example inputs\<close>

definition exPreset :: StoryAnimationPresetDef where
  "exPreset = \<lparr>preset_keyframes = KeyframesArray [[(''opacity'', ''0'')], [(''opacity'', ''1'')]],
               preset_duration = Some 500, preset_delay = Some 200, preset_easing = ''ease-in''\<rparr>"

definition exElementA :: Element where
  "exElementA = \<lparr>tagName = ''DIV'', el_id = ''a'', attributes = [(''animate-in'', ''fade-in'')]\<rparr>"

definition exElementB :: Element where
  "exElementB = \<lparr>tagName = ''DIV'', el_id = ''b'',
                 attributes = [(''animate-in'', ''fade-in''), (''animate-in-after'', ''a'')]\<rparr>"

definition exElementZ :: Element where
  "exElementZ = \<lparr>tagName = ''DIV'', el_id = ''z'', attributes = [(''animate-in'', ''zoooom'')]\<rparr>"

text \<open>A declared delay and duration of exactly 0 on a preset with defaults 200 and 500.\<close>

definition exDefZero :: StoryAnimationDef where
  "exDefZero = \<lparr>def_target = exElementA, def_preset = exPreset, def_duration = Some 0,
                def_delay = Some 0, def_startAfterId = None\<rparr>"

definition exDefNegative :: StoryAnimationDef where
  "exDefNegative = \<lparr>def_target = exElementA, def_preset = exPreset, def_duration = None,
                    def_delay = Some (- 5), def_startAfterId = None\<rparr>"

definition exPresetNoDelay :: StoryAnimationPresetDef where
  "exPresetNoDelay = \<lparr>preset_keyframes = KeyframesArray [[(''opacity'', ''0'')], [(''opacity'', ''1'')]],
               preset_duration = Some 500, preset_delay = None, preset_easing = ''ease-in''\<rparr>"

text \<open>Element a without dependency, element b starting after a; neither has a delay.\<close>

definition exDefA :: StoryAnimationDef where
  "exDefA = \<lparr>def_target = exElementA, def_preset = exPresetNoDelay, def_duration = None,
             def_delay = None, def_startAfterId = None\<rparr>"

definition exDefB :: StoryAnimationDef where
  "exDefB = \<lparr>def_target = exElementB, def_preset = exPresetNoDelay, def_duration = None,
             def_delay = None, def_startAfterId = Some ''a''\<rparr>"


definition exPRESETS :: "string \<rightharpoonup> StoryAnimationPresetDef" where
  "exPRESETS = [''fade-in'' \<mapsto> exPreset]"

definition exTimeStrToMillis :: "string \<Rightarrow> int option" where
  "exTimeStrToMillis s = (if s = ''500ms'' then Some 500 else None)"

definition exManager :: manager where
  "exManager =
     \<lparr>root = [exElementA, exElementZ, exElementB],
      scopedQuerySelector = (\<lambda>selector. find (\<lambda>e. selector = ''#'' @ el_id e) [exElementA, exElementZ, exElementB]),
      runners = None\<rparr>"

text \<open>Constructing a runner and running events on it; what can be observed of the result.\<close>

definition newRun :: "StoryAnimationDef \<Rightarrow> event list \<Rightarrow> error + world" where
  "newRun d evs = (case AnimationRunner_new d of Inl e \<Rightarrow> Inl e | Inr w \<Rightarrow> run evs w)"

definition effectsOf :: "error + world \<Rightarrow> effect list option" where
  "effectsOf r = (case r of Inl e \<Rightarrow> None | Inr w \<Rightarrow> Some (effects w))"

definition microtasksOf :: "error + world \<Rightarrow> cont list option" where
  "microtasksOf r = (case r of Inl e \<Rightarrow> None | Inr w \<Rightarrow> Some (microtasks w))"

definition pendingWaitOf :: "string \<Rightarrow> error + world \<Rightarrow> bool" where
  "pendingWaitOf i r =
     (case r of
        Inl e \<Rightarrow> False
      | Inr w \<Rightarrow> (case subscriptionPromises w i of None \<Rightarrow> False | Some p \<Rightarrow> p \<notin> resolved w))"

section \<open>The invariant holds in every reachable state\<close>

lemma promiseThen_fields:
  "resolved (promiseThen p k w) = resolved w"
  "nextPid (promiseThen p k w) = nextPid w"
  "timers (promiseThen p k w) = timers w"
  "vsyncQueue (promiseThen p k w) = vsyncQueue w"
  "subscriptionPromises (promiseThen p k w) = subscriptionPromises w"
  "subscriptionResolvers (promiseThen p k w) = subscriptionResolvers w"
  "effects (promiseThen p k w) = effects w"
  "runner (promiseThen p k w) = runner w"
  "scheduledActivity (promiseThen p k w) = scheduledActivity w"
  "scheduledWait (promiseThen p k w) = scheduledWait w"
  "runnerReset (promiseThen p k w) = runnerReset w"
  "firstFrameApplied (promiseThen p k w) = firstFrameApplied w"
  "playState (promiseThen p k w) = playState w"
  "keyframes (promiseThen p k w) = keyframes w"
  "delay (promiseThen p k w) = delay w"
  "animationDef (promiseThen p k w) = animationDef w"
  "presetDef (promiseThen p k w) = presetDef w"
  "target (promiseThen p k w) = target w"
  by (simp_all add: promiseThen_def)

lemma promiseThen_queues:
  "microtasks (promiseThen p k w) = (if p \<in> resolved w then microtasks w @ [k] else microtasks w)"
  "reactions (promiseThen p k w) = (if p \<in> resolved w then reactions w else reactions w @ [(p, k)])"
  by (simp_all add: promiseThen_def)

lemma resolve_fields:
  "resolved (resolve p w) = insert p (resolved w)"
  "nextPid (resolve p w) = nextPid w"
  "timers (resolve p w) = timers w"
  "vsyncQueue (resolve p w) = vsyncQueue w"
  "subscriptionPromises (resolve p w) = subscriptionPromises w"
  "subscriptionResolvers (resolve p w) = subscriptionResolvers w"
  "effects (resolve p w) = effects w"
  "runner (resolve p w) = runner w"
  "scheduledActivity (resolve p w) = scheduledActivity w"
  "scheduledWait (resolve p w) = scheduledWait w"
  "runnerReset (resolve p w) = runnerReset w"
  "firstFrameApplied (resolve p w) = firstFrameApplied w"
  "playState (resolve p w) = playState w"
  "keyframes (resolve p w) = keyframes w"
  "delay (resolve p w) = delay w"
  "animationDef (resolve p w) = animationDef w"
  "presetDef (resolve p w) = presetDef w"
  "target (resolve p w) = target w"
  by (auto simp add: resolve_def)

lemma resolve_microtasks:
  "set (microtasks (resolve p w)) \<subseteq> set (microtasks w) \<union> {k. (p, k) \<in> set (reactions w)}"
  by (auto simp: resolve_def)

lemma resolve_reactions: "set (reactions (resolve p w)) \<subseteq> set (reactions w)"
  by (auto simp: resolve_def)

lemma conts_promiseThen: "conts (promiseThen p k w) = insert k (conts w)"
  by (auto simp: conts_def promiseThen_def)

lemma conts_resolve: "conts (resolve p w) = conts w"
  by (auto simp: conts_def resolve_def image_iff)

lemma waitTargets_promiseThen: "waitTargets (promiseThen p k w) = waitTarget k \<union> waitTargets w"
  by (simp add: waitTargets_def conts_promiseThen)

lemma applyTargets_promiseThen: "applyTargets (promiseThen p k w) = applyTarget k \<union> applyTargets w"
  by (auto simp add: applyTargets_def conts_promiseThen promiseThen_fields)

lemma waitTargets_resolve: "waitTargets (resolve p w) = waitTargets w"
  by (simp add: waitTargets_def conts_resolve)

lemma applyTargets_resolve: "applyTargets (resolve p w) = applyTargets w"
  by (simp add: applyTargets_def conts_resolve resolve_fields)

lemma inFlight_promiseThen: "inFlight (promiseThen p k w) = inFlight w"
  by (simp add: inFlight_def promiseThen_fields)

lemma inFlight_resolve: "inFlight (resolve p w) = inFlight w"
  by (simp add: inFlight_def resolve_fields)

lemma blockedOn_prims:
  "blockedOn dep (promiseThen p k w) = blockedOn dep w"
  "blockedOn dep (resolve p w) = blockedOn dep w"
  by (simp_all add: blockedOn_def promiseThen_fields resolve_fields)

lemmas view_simps = blockedOn_prims promiseThen_fields resolve_fields waitTargets_promiseThen applyTargets_promiseThen
  waitTargets_resolve applyTargets_resolve inFlight_promiseThen inFlight_resolve
  conts_promiseThen conts_resolve

lemma view_upd [simp]:
  "conts (scheduledActivity_update f_scheduledActivity w) = conts w"
  "conts (scheduledWait_update f_scheduledWait w) = conts w"
  "conts (runnerReset_update f_runnerReset w) = conts w"
  "conts (firstFrameApplied_update f_firstFrameApplied w) = conts w"
  "conts (playState_update f_playState w) = conts w"
  "conts (keyframes_update f_keyframes w) = conts w"
  "conts (runner_update f_runner w) = conts w"
  "conts (effects_update f_effects w) = conts w"
  "conts (nextPid_update f_nextPid w) = conts w"
  "conts (resolved_update f_resolved w) = conts w"
  "conts (timers_update f_timers w) = conts w"
  "conts (subscriptionResolvers_update f_subscriptionResolvers w) = conts w"
  "conts (vsyncQueue_update f_vsyncQueue w) = conts w"
  "conts (subscriptionPromises_update f_subscriptionPromises w) = conts w"
  "waitTargets (scheduledActivity_update f_scheduledActivity w) = waitTargets w"
  "waitTargets (scheduledWait_update f_scheduledWait w) = waitTargets w"
  "waitTargets (runnerReset_update f_runnerReset w) = waitTargets w"
  "waitTargets (firstFrameApplied_update f_firstFrameApplied w) = waitTargets w"
  "waitTargets (playState_update f_playState w) = waitTargets w"
  "waitTargets (keyframes_update f_keyframes w) = waitTargets w"
  "waitTargets (runner_update f_runner w) = waitTargets w"
  "waitTargets (effects_update f_effects w) = waitTargets w"
  "waitTargets (nextPid_update f_nextPid w) = waitTargets w"
  "waitTargets (resolved_update f_resolved w) = waitTargets w"
  "waitTargets (timers_update f_timers w) = waitTargets w"
  "waitTargets (subscriptionResolvers_update f_subscriptionResolvers w) = waitTargets w"
  "waitTargets (vsyncQueue_update f_vsyncQueue w) = waitTargets w"
  "waitTargets (subscriptionPromises_update f_subscriptionPromises w) = waitTargets w"
  "applyTargets (scheduledActivity_update f_scheduledActivity w) = applyTargets w"
  "applyTargets (scheduledWait_update f_scheduledWait w) = applyTargets w"
  "applyTargets (runnerReset_update f_runnerReset w) = applyTargets w"
  "applyTargets (firstFrameApplied_update f_firstFrameApplied w) = applyTargets w"
  "applyTargets (playState_update f_playState w) = applyTargets w"
  "applyTargets (keyframes_update f_keyframes w) = applyTargets w"
  "applyTargets (runner_update f_runner w) = applyTargets w"
  "applyTargets (effects_update f_effects w) = applyTargets w"
  "applyTargets (nextPid_update f_nextPid w) = applyTargets w"
  "applyTargets (resolved_update f_resolved w) = applyTargets w"
  "applyTargets (timers_update f_timers w) = applyTargets w"
  "applyTargets (subscriptionResolvers_update f_subscriptionResolvers w) = applyTargets w"
  "applyTargets (subscriptionPromises_update f_subscriptionPromises w) = applyTargets w"
  "inFlight (scheduledActivity_update f_scheduledActivity w) = inFlight w"
  "inFlight (scheduledWait_update f_scheduledWait w) = inFlight w"
  "inFlight (runnerReset_update f_runnerReset w) = inFlight w"
  "inFlight (firstFrameApplied_update f_firstFrameApplied w) = inFlight w"
  "inFlight (playState_update f_playState w) = inFlight w"
  "inFlight (keyframes_update f_keyframes w) = inFlight w"
  "inFlight (runner_update f_runner w) = inFlight w"
  "inFlight (effects_update f_effects w) = inFlight w"
  "inFlight (nextPid_update f_nextPid w) = inFlight w"
  "inFlight (resolved_update f_resolved w) = inFlight w"
  "inFlight (timers_update f_timers w) = inFlight w"
  "inFlight (subscriptionResolvers_update f_subscriptionResolvers w) = inFlight w"
  "inFlight (vsyncQueue_update f_vsyncQueue w) = inFlight w"
  "inFlight (microtasks_update f_microtasks w) = inFlight w"
  "inFlight (reactions_update f_reactions w) = inFlight w"
  "blockedOn dep (scheduledActivity_update f_scheduledActivity w) = blockedOn dep w"
  "blockedOn dep (scheduledWait_update f_scheduledWait w) = blockedOn dep w"
  "blockedOn dep (runnerReset_update f_runnerReset w) = blockedOn dep w"
  "blockedOn dep (firstFrameApplied_update f_firstFrameApplied w) = blockedOn dep w"
  "blockedOn dep (playState_update f_playState w) = blockedOn dep w"
  "blockedOn dep (keyframes_update f_keyframes w) = blockedOn dep w"
  "blockedOn dep (runner_update f_runner w) = blockedOn dep w"
  "blockedOn dep (nextPid_update f_nextPid w) = blockedOn dep w"
  "blockedOn dep (resolved_update f_resolved w) = blockedOn dep w"
  "blockedOn dep (timers_update f_timers w) = blockedOn dep w"
  "blockedOn dep (subscriptionResolvers_update f_subscriptionResolvers w) = blockedOn dep w"
  "blockedOn dep (vsyncQueue_update f_vsyncQueue w) = blockedOn dep w"
  "blockedOn dep (microtasks_update f_microtasks w) = blockedOn dep w"
  "blockedOn dep (reactions_update f_reactions w) = blockedOn dep w"
  "blockedOn dep (subscriptionPromises_update f_subscriptionPromises w) = blockedOn dep w"
  by (simp_all add: conts_def waitTargets_def applyTargets_def inFlight_def blockedOn_def)

lemma wellformed_upd [simp]:
  "wellformed (scheduledActivity_update f_scheduledActivity w) = wellformed w"
  "wellformed (scheduledWait_update f_scheduledWait w) = wellformed w"
  "wellformed (runnerReset_update f_runnerReset w) = wellformed w"
  "wellformed (firstFrameApplied_update f_firstFrameApplied w) = wellformed w"
  "wellformed (playState_update f_playState w) = wellformed w"
  "wellformed (keyframes_update f_keyframes w) = wellformed w"
  by (simp_all add: wellformed_def)

lemma reactOK_upd [simp]:
  "reactOK dep (scheduledActivity_update f_scheduledActivity w) = reactOK dep w"
  "reactOK dep (scheduledWait_update f_scheduledWait w) = reactOK dep w"
  "reactOK dep (runnerReset_update f_runnerReset w) = reactOK dep w"
  "reactOK dep (firstFrameApplied_update f_firstFrameApplied w) = reactOK dep w"
  "reactOK dep (playState_update f_playState w) = reactOK dep w"
  "reactOK dep (keyframes_update f_keyframes w) = reactOK dep w"
  "reactOK dep (runner_update f_runner w) = reactOK dep w"
  "reactOK dep (effects_update f_effects w) = reactOK dep w"
  "reactOK dep (nextPid_update f_nextPid w) = reactOK dep w"
  "reactOK dep (resolved_update f_resolved w) = reactOK dep w"
  "reactOK dep (timers_update f_timers w) = reactOK dep w"
  "reactOK dep (subscriptionResolvers_update f_subscriptionResolvers w) = reactOK dep w"
  "reactOK dep (vsyncQueue_update f_vsyncQueue w) = reactOK dep w"
  by (simp_all add: reactOK_def fun_eq_iff split: cont.splits)

lemma waiting_upd [simp]:
  "waiting dep (runnerReset_update f_runnerReset w) = waiting dep w"
  "waiting dep (firstFrameApplied_update f_firstFrameApplied w) = waiting dep w"
  "waiting dep (playState_update f_playState w) = waiting dep w"
  "waiting dep (keyframes_update f_keyframes w) = waiting dep w"
  "waiting dep (runner_update f_runner w) = waiting dep w"
  "waiting dep (nextPid_update f_nextPid w) = waiting dep w"
  "waiting dep (subscriptionResolvers_update f_subscriptionResolvers w) = waiting dep w"
  "waiting dep (vsyncQueue_update f_vsyncQueue w) = waiting dep w"
  by (simp_all add: waiting_def)

lemma inv_upd [simp]:
  "runnerInv (runnerReset_update f_runnerReset w) = runnerInv w"
  "runnerInv (firstFrameApplied_update f_firstFrameApplied w) = runnerInv w"
  "runnerInv (playState_update f_playState w) = runnerInv w"
  "runnerInv (keyframes_update f_keyframes w) = runnerInv w"
  by (simp_all add: runnerInv_def)

lemma wellformedI:
  assumes "\<And>i p. subscriptionPromises w i = Some p \<Longrightarrow> subscriptionResolvers w i = Some p"
    and "\<And>i j p. subscriptionPromises w i = Some p \<Longrightarrow> subscriptionPromises w j = Some p \<Longrightarrow> i = j"
    and "inFlight w \<inter> (resolved w \<union> {keyframesPromise} \<union> set (timers w) \<union> waitTargets w \<union> applyTargets w) = {}"
    and "inFlight w \<union> resolved w \<union> set (timers w) \<union> waitTargets w \<union> applyTargets w \<subseteq> {..<nextPid w}"
    and "keyframesPromise < nextPid w"
    and "waitTargets w \<inter> applyTargets w = {}"
    and "keyframesPromise \<notin> waitTargets w \<union> applyTargets w"
    and "\<not> runner w \<Longrightarrow> (\<forall>k \<in> conts w. \<not> isPlayback k) \<and> (\<forall>e \<in> set (effects w). \<not> isHostCall e)"
  shows "wellformed w"
  unfolding wellformed_def using assms by blast

lemma wellformedD:
  assumes "wellformed w"
  shows "subscriptionPromises w i = Some p \<Longrightarrow> subscriptionResolvers w i = Some p"
    and "subscriptionPromises w i = Some p \<Longrightarrow> subscriptionPromises w j = Some p \<Longrightarrow> i = j"
    and "inFlight w \<inter> (resolved w \<union> {keyframesPromise} \<union> set (timers w) \<union> waitTargets w \<union> applyTargets w) = {}"
    and "inFlight w \<union> resolved w \<union> set (timers w) \<union> waitTargets w \<union> applyTargets w \<subseteq> {..<nextPid w}"
    and "keyframesPromise < nextPid w"
    and "waitTargets w \<inter> applyTargets w = {}"
    and "keyframesPromise \<notin> waitTargets w \<union> applyTargets w"
    and "\<not> runner w \<Longrightarrow> (\<forall>k \<in> conts w. \<not> isPlayback k) \<and> (\<forall>e \<in> set (effects w). \<not> isHostCall e)"
  using assms unfolding wellformed_def by blast+

lemma wellformed_promiseThen:
  assumes wf: "wellformed w" and ok: "thenOK w p k"
  shows "wellformed (promiseThen p k w)"
proof (rule wellformedI, unfold view_simps)
  note D = wellformedD[OF wf]
  have d: "waitTarget k \<inter> applyTarget k = {}" by (cases k) auto
  have t: "waitTarget k \<union> applyTarget k \<subseteq> {..<nextPid w} - inFlight w - {keyframesPromise}"
    and t2: "waitTarget k \<inter> applyTargets w = {}" "applyTarget k \<inter> waitTargets w = {}"
    and t3: "isPlayback k \<longrightarrow> runner w"
    using ok by (simp_all add: thenOK_def)
  show "\<And>i p. subscriptionPromises w i = Some p \<Longrightarrow> subscriptionResolvers w i = Some p"
    by (rule D(1))
  show "\<And>i j p. subscriptionPromises w i = Some p \<Longrightarrow> subscriptionPromises w j = Some p \<Longrightarrow> i = j"
    by (rule D(2))
  show "inFlight w \<inter> (resolved w \<union> {keyframesPromise} \<union> set (timers w) \<union> (waitTarget k \<union> waitTargets w) \<union> (applyTarget k \<union> applyTargets w)) = {}"
    using D(3) t by blast
  show "inFlight w \<union> resolved w \<union> set (timers w) \<union> (waitTarget k \<union> waitTargets w) \<union> (applyTarget k \<union> applyTargets w) \<subseteq> {..<nextPid w}"
    using D(4) t by blast
  show "keyframesPromise < nextPid w" by (rule D(5))
  show "(waitTarget k \<union> waitTargets w) \<inter> (applyTarget k \<union> applyTargets w) = {}"
    using D(6) t2 d by blast
  show "keyframesPromise \<notin> waitTarget k \<union> waitTargets w \<union> (applyTarget k \<union> applyTargets w)"
    using D(7) t by blast
  show "\<not> runner w \<Longrightarrow> (\<forall>k \<in> insert k (conts w). \<not> isPlayback k) \<and> (\<forall>e \<in> set (effects w). \<not> isHostCall e)"
    using D(8) t3 by blast
qed

lemma waitingI:
  assumes "waitTargets w \<inter> resolved w = {}"
    and "timers w = []"
    and "\<And>e. e \<in> set (effects w) \<Longrightarrow> \<not> startEffect e"
    and "\<And>k. k \<in> set (microtasks w) \<Longrightarrow> microOK dep k"
    and "\<And>r. r \<in> set (reactions w) \<Longrightarrow> reactOK dep w (fst r) (snd r)"
    and "scheduledActivity w = Some START \<Longrightarrow> (\<exists>p. scheduledWait w = Some p \<and> p \<in> waitTargets w)"
  shows "waiting dep w"
  unfolding waiting_def using assms by blast

lemma waitingD:
  assumes "waiting dep w"
  shows "waitTargets w \<inter> resolved w = {}"
    and "timers w = []"
    and "e \<in> set (effects w) \<Longrightarrow> \<not> startEffect e"
    and "k \<in> set (microtasks w) \<Longrightarrow> microOK dep k"
    and "r \<in> set (reactions w) \<Longrightarrow> reactOK dep w (fst r) (snd r)"
    and "scheduledActivity w = Some START \<Longrightarrow> (\<exists>p. scheduledWait w = Some p \<and> p \<in> waitTargets w)"
  using assms unfolding waiting_def by blast+

lemma reactOK_mono:
  "reactOK dep w p k \<Longrightarrow> waitTargets w \<subseteq> waitTargets w' \<Longrightarrow>
   subscriptionPromises w' dep = subscriptionPromises w dep \<Longrightarrow> reactOK dep w' p k"
  by (cases k) (auto simp: reactOK_def)

lemma reactOK_promiseThen: "reactOK dep w q k' \<Longrightarrow> reactOK dep (promiseThen p k w) q k'"
  by (erule reactOK_mono) (auto simp: view_simps)

lemma reactOK_resolve: "reactOK dep (resolve p w) q k' = reactOK dep w q k'"
  by (cases k') (simp_all add: reactOK_def view_simps)

lemma waiting_promiseThen:
  assumes wt: "waiting dep w" and ok: "thenOK w p k" and bl: "blockedOn dep w"
  shows "waiting dep (promiseThen p k w)"
proof (rule waitingI, unfold view_simps promiseThen_queues)
  note D = waitingD[OF wt]
  have a: "waitTarget k \<inter> resolved w = {}"
    and b: "if p \<in> resolved w then microOK dep k else reactOK dep w p k"
    using ok bl by (simp_all add: thenOK_def)
  show "(waitTarget k \<union> waitTargets w) \<inter> resolved w = {}" using D(1) a by blast
  show "timers w = []" by (rule D(2))
  show "\<And>e. e \<in> set (effects w) \<Longrightarrow> \<not> startEffect e" by (rule D(3))
  show "\<And>k'. k' \<in> set (if p \<in> resolved w then microtasks w @ [k] else microtasks w) \<Longrightarrow> microOK dep k'"
    using D(4) b by (auto split: if_splits)
  show "\<And>r. r \<in> set (if p \<in> resolved w then reactions w else reactions w @ [(p, k)]) \<Longrightarrow>
          reactOK dep (promiseThen p k w) (fst r) (snd r)"
    using D(5) b by (auto split: if_splits intro: reactOK_promiseThen)
  show "scheduledActivity w = Some START \<Longrightarrow> \<exists>p. scheduledWait w = Some p \<and> p \<in> waitTarget k \<union> waitTargets w"
    using D(6) by blast
qed

lemma inv_promiseThen: "runnerInv w \<Longrightarrow> thenOK w p k \<Longrightarrow> runnerInv (promiseThen p k w)"
  by (simp add: runnerInv_def wellformed_promiseThen waiting_promiseThen view_simps blockedOn_def)

lemma newPromise_fields:
  "fst (newPromise w) = nextPid w"
  "nextPid (snd (newPromise w)) = Suc (nextPid w)"
  "target (snd (newPromise w)) = target w"
  "animationDef (snd (newPromise w)) = animationDef w"
  "presetDef (snd (newPromise w)) = presetDef w"
  "delay (snd (newPromise w)) = delay w"
  "duration (snd (newPromise w)) = duration w"
  "keyframes (snd (newPromise w)) = keyframes w"
  "runner (snd (newPromise w)) = runner w"
  "scheduledActivity (snd (newPromise w)) = scheduledActivity w"
  "scheduledWait (snd (newPromise w)) = scheduledWait w"
  "runnerReset (snd (newPromise w)) = runnerReset w"
  "firstFrameApplied (snd (newPromise w)) = firstFrameApplied w"
  "subscriptionPromises (snd (newPromise w)) = subscriptionPromises w"
  "subscriptionResolvers (snd (newPromise w)) = subscriptionResolvers w"
  "resolved (snd (newPromise w)) = resolved w"
  "reactions (snd (newPromise w)) = reactions w"
  "microtasks (snd (newPromise w)) = microtasks w"
  "timers (snd (newPromise w)) = timers w"
  "vsyncQueue (snd (newPromise w)) = vsyncQueue w"
  "playState (snd (newPromise w)) = playState w"
  "effects (snd (newPromise w)) = effects w"
  by (simp_all add: newPromise_def)

lemma promiseResolve_fields:
  "fst (promiseResolve w) = nextPid w"
  "nextPid (snd (promiseResolve w)) = Suc (nextPid w)"
  "resolved (snd (promiseResolve w)) = insert (nextPid w) (resolved w)"
  "target (snd (promiseResolve w)) = target w"
  "animationDef (snd (promiseResolve w)) = animationDef w"
  "presetDef (snd (promiseResolve w)) = presetDef w"
  "delay (snd (promiseResolve w)) = delay w"
  "duration (snd (promiseResolve w)) = duration w"
  "keyframes (snd (promiseResolve w)) = keyframes w"
  "runner (snd (promiseResolve w)) = runner w"
  "scheduledActivity (snd (promiseResolve w)) = scheduledActivity w"
  "scheduledWait (snd (promiseResolve w)) = scheduledWait w"
  "runnerReset (snd (promiseResolve w)) = runnerReset w"
  "firstFrameApplied (snd (promiseResolve w)) = firstFrameApplied w"
  "subscriptionPromises (snd (promiseResolve w)) = subscriptionPromises w"
  "subscriptionResolvers (snd (promiseResolve w)) = subscriptionResolvers w"
  "reactions (snd (promiseResolve w)) = reactions w"
  "microtasks (snd (promiseResolve w)) = microtasks w"
  "timers (snd (promiseResolve w)) = timers w"
  "vsyncQueue (snd (promiseResolve w)) = vsyncQueue w"
  "playState (snd (promiseResolve w)) = playState w"
  "effects (snd (promiseResolve w)) = effects w"
  by (simp_all add: promiseResolve_def)

lemma logEffect_fields:
  "effects (logEffect e w) = effects w @ [e]"
  "target (logEffect e w) = target w"
  "animationDef (logEffect e w) = animationDef w"
  "presetDef (logEffect e w) = presetDef w"
  "delay (logEffect e w) = delay w"
  "duration (logEffect e w) = duration w"
  "keyframes (logEffect e w) = keyframes w"
  "runner (logEffect e w) = runner w"
  "scheduledActivity (logEffect e w) = scheduledActivity w"
  "scheduledWait (logEffect e w) = scheduledWait w"
  "runnerReset (logEffect e w) = runnerReset w"
  "firstFrameApplied (logEffect e w) = firstFrameApplied w"
  "subscriptionPromises (logEffect e w) = subscriptionPromises w"
  "subscriptionResolvers (logEffect e w) = subscriptionResolvers w"
  "resolved (logEffect e w) = resolved w"
  "reactions (logEffect e w) = reactions w"
  "microtasks (logEffect e w) = microtasks w"
  "nextPid (logEffect e w) = nextPid w"
  "timers (logEffect e w) = timers w"
  "vsyncQueue (logEffect e w) = vsyncQueue w"
  "playState (logEffect e w) = playState w"
  by (simp_all add: logEffect_def)

lemma alloc_views:
  "conts (snd (newPromise w)) = conts w"
  "waitTargets (snd (newPromise w)) = waitTargets w"
  "applyTargets (snd (newPromise w)) = applyTargets w"
  "inFlight (snd (newPromise w)) = inFlight w"
  "blockedOn dep (snd (newPromise w)) = blockedOn dep w"
  "reactOK dep (snd (newPromise w)) p k = reactOK dep w p k"
  "conts (snd (promiseResolve w)) = conts w"
  "waitTargets (snd (promiseResolve w)) = waitTargets w"
  "applyTargets (snd (promiseResolve w)) = applyTargets w"
  "inFlight (snd (promiseResolve w)) = inFlight w"
  "blockedOn dep (snd (promiseResolve w)) = blockedOn dep w"
  "reactOK dep (snd (promiseResolve w)) p k = reactOK dep w p k"
  "conts (logEffect e w) = conts w"
  "waitTargets (logEffect e w) = waitTargets w"
  "applyTargets (logEffect e w) = applyTargets w"
  "inFlight (logEffect e w) = inFlight w"
  "blockedOn dep (logEffect e w) = (blockedOn dep w \<and> e \<noteq> WaitResolved dep)"
  "reactOK dep (logEffect e w) p k = reactOK dep w p k"
  by (auto simp: newPromise_def promiseResolve_def logEffect_def blockedOn_def)

lemmas views = view_simps newPromise_fields promiseResolve_fields logEffect_fields alloc_views

lemma wellformed_newPromise: "wellformed w \<Longrightarrow> wellformed (snd (newPromise w))"
proof (rule wellformedI, unfold views)
  assume wf: "wellformed w"
  note D = wellformedD[OF wf]
  show "\<And>i p. subscriptionPromises w i = Some p \<Longrightarrow> subscriptionResolvers w i = Some p" by (rule D(1))
  show "\<And>i j p. subscriptionPromises w i = Some p \<Longrightarrow> subscriptionPromises w j = Some p \<Longrightarrow> i = j" by (rule D(2))
  show "inFlight w \<inter> (resolved w \<union> {keyframesPromise} \<union> set (timers w) \<union> waitTargets w \<union> applyTargets w) = {}" by (rule D(3))
  show "inFlight w \<union> resolved w \<union> set (timers w) \<union> waitTargets w \<union> applyTargets w \<subseteq> {..<Suc (nextPid w)}"
    using D(4) by (auto simp: less_Suc_eq)
  show "keyframesPromise < Suc (nextPid w)" using D(5) by simp
  show "waitTargets w \<inter> applyTargets w = {}" by (rule D(6))
  show "keyframesPromise \<notin> waitTargets w \<union> applyTargets w" by (rule D(7))
  show "\<not> runner w \<Longrightarrow> (\<forall>k \<in> conts w. \<not> isPlayback k) \<and> (\<forall>e \<in> set (effects w). \<not> isHostCall e)" by (rule D(8))
qed

lemma fresh_nextPid:
  assumes "wellformed w"
  shows "nextPid w \<notin> inFlight w" "nextPid w \<notin> resolved w" "nextPid w \<notin> set (timers w)"
    "nextPid w \<notin> waitTargets w" "nextPid w \<notin> applyTargets w" "nextPid w \<noteq> keyframesPromise"
  using wellformedD(4,5)[OF assms] by auto

lemma wellformed_promiseResolve: "wellformed w \<Longrightarrow> wellformed (snd (promiseResolve w))"
proof (rule wellformedI, unfold views)
  assume wf: "wellformed w"
  note D = wellformedD[OF wf] and F = fresh_nextPid[OF wf]
  show "\<And>i p. subscriptionPromises w i = Some p \<Longrightarrow> subscriptionResolvers w i = Some p" by (rule D(1))
  show "\<And>i j p. subscriptionPromises w i = Some p \<Longrightarrow> subscriptionPromises w j = Some p \<Longrightarrow> i = j" by (rule D(2))
  show "inFlight w \<inter> (insert (nextPid w) (resolved w) \<union> {keyframesPromise} \<union> set (timers w) \<union> waitTargets w \<union> applyTargets w) = {}"
    using D(3) F(1) by blast
  show "inFlight w \<union> insert (nextPid w) (resolved w) \<union> set (timers w) \<union> waitTargets w \<union> applyTargets w \<subseteq> {..<Suc (nextPid w)}"
    using D(4) by (auto simp: less_Suc_eq)
  show "keyframesPromise < Suc (nextPid w)" using D(5) by simp
  show "waitTargets w \<inter> applyTargets w = {}" by (rule D(6))
  show "keyframesPromise \<notin> waitTargets w \<union> applyTargets w" by (rule D(7))
  show "\<not> runner w \<Longrightarrow> (\<forall>k \<in> conts w. \<not> isPlayback k) \<and> (\<forall>e \<in> set (effects w). \<not> isHostCall e)" by (rule D(8))
qed

lemma waiting_newPromise: "waiting dep w \<Longrightarrow> waiting dep (snd (newPromise w))"
  by (simp add: waiting_def views)

lemma waiting_promiseResolve: "wellformed w \<Longrightarrow> waiting dep w \<Longrightarrow> waiting dep (snd (promiseResolve w))"
  using fresh_nextPid(4)[of w] by (simp add: waiting_def views)

lemma inv_newPromise: "runnerInv w \<Longrightarrow> runnerInv (snd (newPromise w))"
  by (simp add: runnerInv_def wellformed_newPromise waiting_newPromise views)

lemma inv_promiseResolve: "runnerInv w \<Longrightarrow> runnerInv (snd (promiseResolve w))"
  by (simp add: runnerInv_def wellformed_promiseResolve waiting_promiseResolve views)

lemma wellformed_logEffect:
  "wellformed w \<Longrightarrow> (isHostCall e \<longrightarrow> runner w) \<Longrightarrow> wellformed (logEffect e w)"
  by (auto simp: wellformed_def views)

lemma waiting_logEffect:
  "waiting dep w \<Longrightarrow> \<not> startEffect e \<Longrightarrow> waiting dep (logEffect e w)"
  by (auto simp: waiting_def views)

lemma inv_logEffect:
  "runnerInv w \<Longrightarrow> (isHostCall e \<longrightarrow> runner w) \<Longrightarrow> (startEffect e \<longrightarrow> (\<forall>dep. \<not> blockedOn dep w))
   \<Longrightarrow> runnerInv (logEffect e w)"
  by (auto simp: runnerInv_def views wellformed_logEffect waiting_logEffect)

lemma inv_slot:
  assumes "runnerInv w"
    and "a = Some START \<longrightarrow> (\<forall>dep. blockedOn dep w \<longrightarrow> (\<exists>p. x = Some p \<and> p \<in> waitTargets w))"
  shows "runnerInv (w\<lparr>scheduledActivity := a, scheduledWait := x\<rparr>)"
  using assms by (simp add: runnerInv_def waiting_def)

lemma inv_runner: "runnerInv w \<Longrightarrow> runnerInv (w\<lparr>runner := True\<rparr>)"
  by (simp add: runnerInv_def wellformed_def)

lemma reactOK_microOK:
  "reactOK dep w q k \<Longrightarrow> q \<notin> waitTargets w \<Longrightarrow> subscriptionPromises w dep \<noteq> Some q \<Longrightarrow> microOK dep k"
  by (cases k) (auto simp: reactOK_def microOK_def intro: PlaybackActivity.exhaust)

lemma wellformed_resolve:
  assumes wf: "wellformed w" and q: "q < nextPid w" "q \<notin> inFlight w"
  shows "wellformed (resolve q w)"
proof (rule wellformedI, unfold views)
  note D = wellformedD[OF wf]
  show "\<And>i p. subscriptionPromises w i = Some p \<Longrightarrow> subscriptionResolvers w i = Some p" by (rule D(1))
  show "\<And>i j p. subscriptionPromises w i = Some p \<Longrightarrow> subscriptionPromises w j = Some p \<Longrightarrow> i = j" by (rule D(2))
  show "inFlight w \<inter> (insert q (resolved w) \<union> {keyframesPromise} \<union> set (timers w) \<union> waitTargets w \<union> applyTargets w) = {}"
    using D(3) q(2) by blast
  show "inFlight w \<union> insert q (resolved w) \<union> set (timers w) \<union> waitTargets w \<union> applyTargets w \<subseteq> {..<nextPid w}"
    using D(4) q(1) by auto
  show "keyframesPromise < nextPid w" by (rule D(5))
  show "waitTargets w \<inter> applyTargets w = {}" by (rule D(6))
  show "keyframesPromise \<notin> waitTargets w \<union> applyTargets w" by (rule D(7))
  show "\<not> runner w \<Longrightarrow> (\<forall>k \<in> conts w. \<not> isPlayback k) \<and> (\<forall>e \<in> set (effects w). \<not> isHostCall e)" by (rule D(8))
qed

lemma waiting_resolve:
  assumes wt: "waiting dep w" and q: "q \<notin> waitTargets w" "subscriptionPromises w dep \<noteq> Some q"
  shows "waiting dep (resolve q w)"
proof (rule waitingI, unfold views reactOK_resolve)
  note D = waitingD[OF wt]
  show "waitTargets w \<inter> insert q (resolved w) = {}" using D(1) q(1) by blast
  show "timers w = []" by (rule D(2))
  show "\<And>e. e \<in> set (effects w) \<Longrightarrow> \<not> startEffect e" by (rule D(3))
  show "\<And>k. k \<in> set (microtasks (resolve q w)) \<Longrightarrow> microOK dep k"
  proof -
    fix k assume "k \<in> set (microtasks (resolve q w))"
    then have "k \<in> set (microtasks w) \<or> (q, k) \<in> set (reactions w)"
      using resolve_microtasks[of q w] by blast
    then show "microOK dep k"
    proof
      assume "k \<in> set (microtasks w)" then show ?thesis by (rule D(4))
    next
      assume "(q, k) \<in> set (reactions w)"
      from D(5)[OF this] have "reactOK dep w q k" by simp
      then show ?thesis using q by (rule reactOK_microOK)
    qed
  qed
  show "\<And>r. r \<in> set (reactions (resolve q w)) \<Longrightarrow> reactOK dep w (fst r) (snd r)"
    using D(5) resolve_reactions[of q w] by blast
  show "scheduledActivity w = Some START \<Longrightarrow> \<exists>p. scheduledWait w = Some p \<and> p \<in> waitTargets w"
    by (rule D(6))
qed

lemma inFlight_iff: "p \<in> inFlight w \<longleftrightarrow> (\<exists>i. subscriptionPromises w i = Some p)"
  by (auto simp: inFlight_def ran_def)

lemma inv_resolve:
  assumes "runnerInv w" "q < nextPid w" "q \<notin> inFlight w"
    and "\<forall>dep. blockedOn dep w \<longrightarrow> q \<notin> waitTargets w"
  shows "runnerInv (resolve q w)"
  using assms
  by (auto simp: runnerInv_def views inFlight_iff intro!: wellformed_resolve waiting_resolve)

lemma conts_pop:
  "microtasks w = k # ks \<Longrightarrow> conts w = insert k (conts (w\<lparr>microtasks := ks\<rparr>))"
  by (auto simp: conts_def)

lemma targets_pop:
  assumes "microtasks w = k # ks"
  shows "waitTargets w = waitTarget k \<union> waitTargets (w\<lparr>microtasks := ks\<rparr>)"
    and "applyTargets w = applyTarget k \<union> applyTargets (w\<lparr>microtasks := ks\<rparr>)"
  by (auto simp: waitTargets_def applyTargets_def conts_pop[OF assms])

lemma wellformed_pop:
  assumes wf: "wellformed w" and m: "microtasks w = k # ks"
  shows "wellformed (w\<lparr>microtasks := ks\<rparr>)"
proof (rule wellformedI)
  let ?w = "w\<lparr>microtasks := ks\<rparr>"
  note D = wellformedD[OF wf] and T = targets_pop[OF m] and C = conts_pop[OF m]
  have f: "subscriptionPromises ?w = subscriptionPromises w" "subscriptionResolvers ?w = subscriptionResolvers w"
    "resolved ?w = resolved w" "timers ?w = timers w" "nextPid ?w = nextPid w" "runner ?w = runner w"
    "effects ?w = effects w" "inFlight ?w = inFlight w"
    by simp_all
  show "\<And>i p. subscriptionPromises ?w i = Some p \<Longrightarrow> subscriptionResolvers ?w i = Some p"
    using D(1) by simp
  show "\<And>i j p. subscriptionPromises ?w i = Some p \<Longrightarrow> subscriptionPromises ?w j = Some p \<Longrightarrow> i = j"
    using D(2) by simp
  show "inFlight ?w \<inter> (resolved ?w \<union> {keyframesPromise} \<union> set (timers ?w) \<union> waitTargets ?w \<union> applyTargets ?w) = {}"
    unfolding f using D(3) T by blast
  show "inFlight ?w \<union> resolved ?w \<union> set (timers ?w) \<union> waitTargets ?w \<union> applyTargets ?w \<subseteq> {..<nextPid ?w}"
    unfolding f using D(4) T by blast
  show "keyframesPromise < nextPid ?w" using D(5) by simp
  show "waitTargets ?w \<inter> applyTargets ?w = {}" using D(6) T by blast
  show "keyframesPromise \<notin> waitTargets ?w \<union> applyTargets ?w" using D(7) T by blast
  show "\<not> runner ?w \<Longrightarrow> (\<forall>k \<in> conts ?w. \<not> isPlayback k) \<and> (\<forall>e \<in> set (effects ?w). \<not> isHostCall e)"
    unfolding f using D(8) C by blast
qed

lemma waiting_pop:
  assumes wt: "waiting dep w" and m: "microtasks w = k # ks" and k: "waitTarget k = {}"
  shows "waiting dep (w\<lparr>microtasks := ks\<rparr>)"
proof -
  have T: "waitTargets (w\<lparr>microtasks := ks\<rparr>) = waitTargets w"
    using targets_pop(1)[OF m] k by simp
  have R: "\<And>p k'. reactOK dep (w\<lparr>microtasks := ks\<rparr>) p k' = reactOK dep w p k'"
    by (simp add: reactOK_def T split: cont.splits)
  show ?thesis using wt m unfolding waiting_def T R by simp
qed

lemma inv_pop:
  assumes "runnerInv w" "microtasks w = k # ks" "\<forall>dep. blockedOn dep w \<longrightarrow> waitTarget k = {}"
  shows "runnerInv (w\<lparr>microtasks := ks\<rparr>)"
  using assms by (auto simp: runnerInv_def intro: wellformed_pop waiting_pop)

lemma inv_popD:
  assumes "runnerInv w" "microtasks w = k # ks"
  shows "waitTarget k \<union> applyTarget k \<subseteq> {..<nextPid w} - inFlight w - {keyframesPromise}"
    and "isPlayback k \<Longrightarrow> runner w"
    and "blockedOn dep w \<Longrightarrow> microOK dep k"
    and "waitTarget k \<inter> applyTargets w = {}"
proof -
  have wf: "wellformed w" using assms(1) by (simp add: runnerInv_def)
  note D = wellformedD[OF wf] and T = targets_pop[OF assms(2)] and C = conts_pop[OF assms(2)]
  show "waitTarget k \<union> applyTarget k \<subseteq> {..<nextPid w} - inFlight w - {keyframesPromise}"
    using D(3,4,7) T by blast
  show "isPlayback k \<Longrightarrow> runner w" using D(8) C by blast
  show "blockedOn dep w \<Longrightarrow> microOK dep k"
    using assms by (auto simp: runnerInv_def waiting_def)
  show "waitTarget k \<inter> applyTargets w = {}" using D(6) T by blast
qed

lemma waitFor_Some: "subscriptionPromises w i = Some p \<Longrightarrow> waitFor i w = (p, w)"
  by (simp add: waitFor_def)

lemma waitFor_None:
  "subscriptionPromises w i = None \<Longrightarrow>
   waitFor i w = (nextPid w, w\<lparr>nextPid := Suc (nextPid w),
                              subscriptionResolvers := (subscriptionResolvers w)(i \<mapsto> nextPid w),
                              subscriptionPromises := (subscriptionPromises w)(i \<mapsto> nextPid w)\<rparr>)"
  by (simp add: waitFor_def newPromise_def)

lemma waitFor_fields:
  "resolved (snd (waitFor i w)) = resolved w"
  "timers (snd (waitFor i w)) = timers w"
  "vsyncQueue (snd (waitFor i w)) = vsyncQueue w"
  "effects (snd (waitFor i w)) = effects w"
  "runner (snd (waitFor i w)) = runner w"
  "scheduledActivity (snd (waitFor i w)) = scheduledActivity w"
  "scheduledWait (snd (waitFor i w)) = scheduledWait w"
  "runnerReset (snd (waitFor i w)) = runnerReset w"
  "firstFrameApplied (snd (waitFor i w)) = firstFrameApplied w"
  "playState (snd (waitFor i w)) = playState w"
  "keyframes (snd (waitFor i w)) = keyframes w"
  "delay (snd (waitFor i w)) = delay w"
  "animationDef (snd (waitFor i w)) = animationDef w"
  "presetDef (snd (waitFor i w)) = presetDef w"
  "target (snd (waitFor i w)) = target w"
  "microtasks (snd (waitFor i w)) = microtasks w"
  "reactions (snd (waitFor i w)) = reactions w"
  "conts (snd (waitFor i w)) = conts w"
  "waitTargets (snd (waitFor i w)) = waitTargets w"
  "applyTargets (snd (waitFor i w)) = applyTargets w"
  "blockedOn dep (snd (waitFor i w)) = blockedOn dep w"
  "subscriptionPromises (snd (waitFor i w)) i = Some (fst (waitFor i w))"
  "j \<noteq> i \<Longrightarrow> subscriptionPromises (snd (waitFor i w)) j = subscriptionPromises w j"
  by (cases "subscriptionPromises w i"; simp add: waitFor_Some waitFor_None)+

lemma waitFor_inFlight:
  "inFlight (snd (waitFor i w)) = insert (fst (waitFor i w)) (inFlight w)"
  by (cases "subscriptionPromises w i") (auto simp: waitFor_Some waitFor_None inFlight_def ranI)

lemma waitFor_nextPid:
  "nextPid w \<le> nextPid (snd (waitFor i w))" "fst (waitFor i w) \<in> inFlight w \<or> fst (waitFor i w) = nextPid w"
  "fst (waitFor i w) \<notin> inFlight w \<Longrightarrow> nextPid (snd (waitFor i w)) = Suc (nextPid w)"
  by (cases "subscriptionPromises w i"; auto simp: waitFor_Some waitFor_None inFlight_iff)+

lemma wellformed_waitFor:
  assumes wf: "wellformed w"
  shows "wellformed (snd (waitFor i w))"
proof (cases "subscriptionPromises w i")
  case (Some p)
  then show ?thesis using wf by (simp add: waitFor_Some)
next
  case None
  let ?n = "nextPid w"
  let ?w = "w\<lparr>nextPid := Suc ?n, subscriptionResolvers := (subscriptionResolvers w)(i \<mapsto> ?n),
              subscriptionPromises := (subscriptionPromises w)(i \<mapsto> ?n)\<rparr>"
  note D = wellformedD[OF wf] and F = fresh_nextPid[OF wf]
  have I: "inFlight ?w = insert ?n (inFlight w)"
    using None by (simp add: inFlight_def)
  have "wellformed ?w"
  proof (rule wellformedI)
    show "\<And>j p. subscriptionPromises ?w j = Some p \<Longrightarrow> subscriptionResolvers ?w j = Some p"
      using D(1) by (simp split: if_splits)
    show "\<And>j j' p. subscriptionPromises ?w j = Some p \<Longrightarrow> subscriptionPromises ?w j' = Some p \<Longrightarrow> j = j'"
      using D(2) F(1) by (auto simp: inFlight_iff split: if_splits)
    show "inFlight ?w \<inter> (resolved ?w \<union> {keyframesPromise} \<union> set (timers ?w) \<union> waitTargets ?w \<union> applyTargets ?w) = {}"
      unfolding I using D(3) F by auto
    show "inFlight ?w \<union> resolved ?w \<union> set (timers ?w) \<union> waitTargets ?w \<union> applyTargets ?w \<subseteq> {..<nextPid ?w}"
      unfolding I using D(4) by (auto simp: less_Suc_eq)
    show "keyframesPromise < nextPid ?w" using D(5) by simp
    show "waitTargets ?w \<inter> applyTargets ?w = {}" using D(6) by simp
    show "keyframesPromise \<notin> waitTargets ?w \<union> applyTargets ?w" using D(7) by simp
    show "\<not> runner ?w \<Longrightarrow> (\<forall>k \<in> conts ?w. \<not> isPlayback k) \<and> (\<forall>e \<in> set (effects ?w). \<not> isHostCall e)"
      using D(8) by simp
  qed
  then show ?thesis using None by (simp add: waitFor_None)
qed

lemma reactOK_waitFor: "reactOK dep w p k \<Longrightarrow> reactOK dep (snd (waitFor i w)) p k"
  by (cases "subscriptionPromises w i"; cases k)
     (auto simp: waitFor_Some waitFor_None reactOK_def waitTargets_def conts_def)

lemma waiting_waitFor: "waiting dep w \<Longrightarrow> waiting dep (snd (waitFor i w))"
  unfolding waiting_def waitFor_fields using reactOK_waitFor by blast

lemma inv_waitFor: "runnerInv w \<Longrightarrow> runnerInv (snd (waitFor i w))"
  by (simp add: runnerInv_def wellformed_waitFor waiting_waitFor waitFor_fields)

lemma waitFor_pending:
  assumes "wellformed w"
  shows "fst (waitFor i w) \<notin> resolved (snd (waitFor i w))"
    and "fst (waitFor i w) < nextPid (snd (waitFor i w))"
proof -
  have "fst (waitFor i w) \<in> inFlight (snd (waitFor i w))" by (simp add: waitFor_inFlight)
  with wellformedD(3,4)[OF wellformed_waitFor[OF assms, of i]]
  show "fst (waitFor i w) \<notin> resolved (snd (waitFor i w))"
    and "fst (waitFor i w) < nextPid (snd (waitFor i w))" by auto
qed

lemma notifyFinish_None:
  "subscriptionPromises w i = None \<Longrightarrow> notifyFinish i w = Inr (logEffect (NotifyFinish i) w)"
  by (simp add: notifyFinish_def logEffect_def domIff)

lemma notifyFinish_Some:
  "subscriptionPromises w i = Some p \<Longrightarrow> subscriptionResolvers w i = Some r \<Longrightarrow>
   notifyFinish i w =
     Inr ((resolve r (logEffect (WaitResolved i) (logEffect (NotifyFinish i) w)))
            \<lparr>subscriptionPromises := (subscriptionPromises w)(i := None)\<rparr>)"
  by (simp add: notifyFinish_def logEffect_def domIff)

lemma wellformed_unsubscribe:
  assumes wf: "wellformed w" and s: "subscriptionPromises w i = Some r"
  shows "wellformed ((resolve r w)\<lparr>subscriptionPromises := (subscriptionPromises w)(i := None)\<rparr>)"
proof (rule wellformedI)
  let ?w = "(resolve r w)\<lparr>subscriptionPromises := (subscriptionPromises w)(i := None)\<rparr>"
  note D = wellformedD[OF wf]
  have A: "\<And>p. p \<in> inFlight ?w \<longleftrightarrow> (\<exists>j. j \<noteq> i \<and> subscriptionPromises w j = Some p)"
    by (auto simp: inFlight_iff split: if_splits)
  have B: "\<And>p. (\<exists>j. j \<noteq> i \<and> subscriptionPromises w j = Some p) \<longleftrightarrow>
            ((\<exists>j. subscriptionPromises w j = Some p) \<and> p \<noteq> r)"
    by (metis D(2) s option.inject)
  have I: "inFlight ?w = inFlight w - {r}"
  proof (rule set_eqI)
    fix p show "p \<in> inFlight ?w \<longleftrightarrow> p \<in> inFlight w - {r}"
      unfolding A B by (simp add: inFlight_iff)
  qed
  have r: "r \<in> inFlight w" using s by (auto simp: inFlight_iff)
  have f: "resolved ?w = insert r (resolved w)" "timers ?w = timers w" "waitTargets ?w = waitTargets w"
    "applyTargets ?w = applyTargets w" "nextPid ?w = nextPid w" "conts ?w = conts w"
    "runner ?w = runner w" "effects ?w = effects w"
    by (simp_all add: views)
  show "\<And>j p. subscriptionPromises ?w j = Some p \<Longrightarrow> subscriptionResolvers ?w j = Some p"
    using D(1) by (simp add: views split: if_splits)
  show "\<And>j j' p. subscriptionPromises ?w j = Some p \<Longrightarrow> subscriptionPromises ?w j' = Some p \<Longrightarrow> j = j'"
    using D(2) by (simp split: if_splits)
  show "inFlight ?w \<inter> (resolved ?w \<union> {keyframesPromise} \<union> set (timers ?w) \<union> waitTargets ?w \<union> applyTargets ?w) = {}"
    unfolding I f using D(3) by blast
  show "inFlight ?w \<union> resolved ?w \<union> set (timers ?w) \<union> waitTargets ?w \<union> applyTargets ?w \<subseteq> {..<nextPid ?w}"
    unfolding I f using D(4) r by blast
  show "keyframesPromise < nextPid ?w" unfolding f by (rule D(5))
  show "waitTargets ?w \<inter> applyTargets ?w = {}" unfolding f by (rule D(6))
  show "keyframesPromise \<notin> waitTargets ?w \<union> applyTargets ?w" unfolding f by (rule D(7))
  show "\<not> runner ?w \<Longrightarrow> (\<forall>k \<in> conts ?w. \<not> isPlayback k) \<and> (\<forall>e \<in> set (effects ?w). \<not> isHostCall e)"
    unfolding f by (rule D(8))
qed

lemma waiting_unsubscribe:
  assumes wf: "wellformed w" and wt: "waiting dep w" and s: "subscriptionPromises w i = Some r" and i: "i \<noteq> dep"
  shows "waiting dep ((resolve r w)\<lparr>subscriptionPromises := (subscriptionPromises w)(i := None)\<rparr>)"
proof -
  note D = wellformedD[OF wf]
  have r: "r \<in> inFlight w" using s by (auto simp: inFlight_iff)
  have 1: "r \<notin> waitTargets w" using D(3) r by blast
  have 2: "subscriptionPromises w dep \<noteq> Some r" using D(2)[OF s] i by blast
  have W: "waiting dep (resolve r w)" using wt 1 2 by (rule waiting_resolve)
  have R: "\<And>p k. reactOK dep ((resolve r w)\<lparr>subscriptionPromises := (subscriptionPromises w)(i := None)\<rparr>) p k
             = reactOK dep (resolve r w) p k"
    using i by (simp add: reactOK_def views waitTargets_def split: cont.splits)
  show ?thesis using W unfolding waiting_def R by simp
qed

lemma inv_notifyFinish:
  assumes "runnerInv w"
  shows "\<exists>w'. notifyFinish i w = Inr w' \<and> runnerInv w'"
proof (cases "subscriptionPromises w i")
  case None
  then show ?thesis using assms by (simp add: notifyFinish_None inv_logEffect)
next
  case (Some r)
  let ?w1 = "logEffect (WaitResolved i) (logEffect (NotifyFinish i) w)"
  let ?w2 = "(resolve r ?w1)\<lparr>subscriptionPromises := (subscriptionPromises ?w1)(i := None)\<rparr>"
  have wf: "wellformed w" using assms by (simp add: runnerInv_def)
  have sr: "subscriptionResolvers w i = Some r" using wellformedD(1)[OF wf Some] .
  have i1: "runnerInv ?w1" using assms by (simp add: inv_logEffect)
  then have wf1: "wellformed ?w1" by (simp add: runnerInv_def)
  have s1: "subscriptionPromises ?w1 i = Some r" using Some by (simp add: views)
  have "wellformed ?w2" using wf1 s1 by (rule wellformed_unsubscribe)
  moreover have "waiting dep ?w2" if "blockedOn dep ?w2" for dep
  proof -
    from that have b: "blockedOn dep ?w1" and ne: "i \<noteq> dep"
      by (auto simp: blockedOn_def views)
    with i1 have "waiting dep ?w1" by (simp add: runnerInv_def)
    then show ?thesis using wf1 s1 ne by (intro waiting_unsubscribe)
  qed
  ultimately have "runnerInv ?w2" by (simp add: runnerInv_def)
  then show ?thesis using Some sr by (simp add: notifyFinish_Some views)
qed

lemma invD: "runnerInv w \<Longrightarrow> wellformed w" "runnerInv w \<Longrightarrow> blockedOn dep w \<Longrightarrow> waiting dep w"
  by (simp_all add: runnerInv_def)

lemma thenOK_plain:
  assumes "waitTarget k = {}" "applyTarget k = {}" "\<not> isPlayback k"
    and "\<And>dep. microOK dep k" "\<And>dep p. reactOK dep w p k"
  shows "thenOK w p k"
  using assms by (simp add: thenOK_def)

lemma thenOK_reset [simp]: "thenOK w p CResetFirstFrame" "thenOK w p CAssertOffset"
  by (rule thenOK_plain; simp add: microOK_def reactOK_def)+

lemma inv_new:
  assumes "AnimationRunner_new d = Inr w"
  shows "runnerInv w"
proof -
  define b where "b = \<lparr>target = def_target d, animationDef = d, presetDef = def_preset d,
      delay = orDefault (def_delay d) (preset_delay (def_preset d)),
      duration = orDefault (def_duration d) (preset_duration (def_preset d)),
      keyframes = (case preset_keyframes (def_preset d) of KeyframesArray a \<Rightarrow> Some a | KeyframesFn f \<Rightarrow> None),
      runner = False, scheduledActivity = None, scheduledWait = None, runnerReset = True,
      firstFrameApplied = False, subscriptionPromises = Map.empty, subscriptionResolvers = Map.empty,
      resolved = (case preset_keyframes (def_preset d) of KeyframesArray a \<Rightarrow> {keyframesPromise} | KeyframesFn f \<Rightarrow> {}),
      reactions = [], microtasks = [], nextPid = Suc keyframesPromise, timers = [], vsyncQueue = [],
      playState = IDLE, effects = []\<rparr>"
  have w: "w = promiseThen keyframesPromise CAssertOffset b"
    using assms by (simp add: AnimationRunner_new_def b_def Let_def split: if_splits)
  have c: "conts b = {}" "waitTargets b = {}" "applyTargets b = {}" "inFlight b = {}"
    by (simp_all add: conts_def waitTargets_def applyTargets_def inFlight_def b_def)
  have "wellformed b"
    by (rule wellformedI) (simp_all add: c, auto simp: b_def split: KeyframesOrFilterFnDef.splits)
  moreover have "waiting dep b" for dep
    by (rule waitingI) (simp_all add: c, simp_all add: b_def)
  ultimately have "runnerInv b" by (simp add: runnerInv_def)
  then show ?thesis unfolding w by (rule inv_promiseThen) simp
qed

lemma inv_applyFirstFrame:
  assumes "runnerInv w"
  shows "runnerInv (snd (applyFirstFrame w))"
proof (cases "firstFrameApplied w")
  case True
  then show ?thesis using assms by (simp add: applyFirstFrame_def inv_promiseResolve)
next
  case False
  let ?v = "snd (newPromise (w\<lparr>firstFrameApplied := True\<rparr>))"
  let ?p = "nextPid w"
  have iv: "runnerInv ?v" using assms by (simp add: inv_newPromise)
  have wf: "wellformed w" using assms by (rule invD)
  note F = fresh_nextPid[OF wf]
  have ok: "thenOK ?v keyframesPromise (CApplyFirstFrame ?p)"
    using F by (simp add: thenOK_def views microOK_def reactOK_def)
  have "snd (applyFirstFrame w) = promiseThen keyframesPromise (CApplyFirstFrame ?p) ?v"
    using False by (simp add: applyFirstFrame_def split_beta views Let_def)
  then show ?thesis using inv_promiseThen[OF iv ok] by simp
qed

lemma inv_resetFirstFrame: "runnerInv w \<Longrightarrow> runnerInv (resetFirstFrame w)"
  by (simp add: resetFirstFrame_def inv_promiseThen)

lemma resetFirstFrame_views:
  "runner (resetFirstFrame w) = runner w"
  "blockedOn dep (resetFirstFrame w) = blockedOn dep w"
  "effects (resetFirstFrame w) = effects w"
  "playState (resetFirstFrame w) = playState w"
  "scheduledActivity (resetFirstFrame w) = scheduledActivity w"
  by (simp_all add: resetFirstFrame_def views)

lemma getStartWaitPromise_eq: "getStartWaitPromise w = delayStep (depStep (promiseResolve w))"
  by (simp add: getStartWaitPromise_def depStep_def delayStep_def Let_def split_beta newPromise_def
           split: option.splits prod.splits)

lemma depStep_ok:
  assumes i: "runnerInv w" and p: "p \<in> resolved w"
  shows "waitOK (depStep (p, w))"
proof (cases "\<exists>s. def_startAfterId (animationDef w) = Some s \<and> s \<noteq> []")
  case False
  then have e: "depStep (p, w) = (p, w)" by (auto simp: depStep_def split: option.splits)
  have nb: "\<not> blockedOn dep w" for dep using False by (auto simp: blockedOn_def)
  have wf: "wellformed w" using i by (rule invD)
  have "p < nextPid w" "p \<notin> inFlight w" using wellformedD(3,4)[OF wf] p by auto
  then show ?thesis using i nb by (simp add: e waitOK_def)
next
  case True
  then obtain s where s: "def_startAfterId (animationDef w) = Some s" "s \<noteq> []" by blast
  let ?q = "nextPid w"
  let ?v = "snd (newPromise w)"
  have e: "depStep (p, w) = (?q, promiseThen p (CWaitFor s ?q) ?v)"
    using s by (simp add: depStep_def)
  have wf: "wellformed w" using i by (rule invD)
  note F = fresh_nextPid[OF wf]
  have iv: "runnerInv ?v" using i by (rule inv_newPromise)
  have ok: "thenOK ?v p (CWaitFor s ?q)"
    using F p s by (auto simp: thenOK_def views microOK_def blockedOn_def)
  show ?thesis
    using inv_promiseThen[OF iv ok] F(1) by (simp add: e waitOK_def views)
qed

lemma delayStep_ok:
  assumes "waitOK (p, w)"
  shows "waitOK (delayStep (p, w))"
proof (cases "delay w \<noteq> 0")
  case False
  then show ?thesis using assms by (simp add: delayStep_def)
next
  case True
  let ?q = "nextPid w"
  let ?v = "snd (newPromise w)"
  have e: "delayStep (p, w) = (?q, promiseThen p (CTimer ?q) ?v)"
    using True by (simp add: delayStep_def)
  have i: "runnerInv w" and pw: "\<And>dep. blockedOn dep w \<Longrightarrow> p \<in> waitTargets w"
    using assms by (auto simp: waitOK_def)
  have wf: "wellformed w" using i by (rule invD)
  note F = fresh_nextPid[OF wf]
  have iv: "runnerInv ?v" using i by (rule inv_newPromise)
  have pr: "p \<notin> resolved w" if "blockedOn dep w" for dep
    using waitingD(1)[OF invD(2)[OF i that]] pw[OF that] by blast
  have ok: "thenOK ?v p (CTimer ?q)"
    using F pw pr by (auto simp: thenOK_def views reactOK_def)
  show ?thesis
    using inv_promiseThen[OF iv ok] F(1) by (simp add: e waitOK_def views)
qed

lemma getStartWaitPromise_ok: "runnerInv w \<Longrightarrow> waitOK (getStartWaitPromise w)"
proof -
  assume i: "runnerInv w"
  have "waitOK (depStep (nextPid w, snd (promiseResolve w)))"
    by (rule depStep_ok) (simp_all add: inv_promiseResolve i views)
  then have "waitOK (depStep (promiseResolve w))"
    by (simp add: promiseResolve_def)
  then show ?thesis
    unfolding getStartWaitPromise_eq by (metis delayStep_ok prod.collapse)
qed

lemma inv_playbackWhenReady:
  assumes i: "runnerInv w" and r: "runner w" and ok: "slotOK a x w"
  shows "\<exists>w'. playbackWhenReady a x w = Inr w' \<and> runnerInv w'"
proof (cases x)
  case None
  let ?v = "snd (promiseResolve w)"
  have iv: "runnerInv ?v" using i by (rule inv_promiseResolve)
  have fin: "a = FINISH" if "blockedOn dep w" for dep
    using ok that None by (cases a) (auto simp: slotOK_def)
  have "thenOK ?v (nextPid w) (CPlayback a)"
    using r fin by (auto simp: thenOK_def views microOK_def)
  from inv_promiseThen[OF iv this] show ?thesis
    using r None by (simp add: playbackWhenReady_def split_beta views)
next
  case (Some p)
  have pw: "p \<in> waitTargets w" if "blockedOn dep w" "a = START" for dep
    using ok that Some by (auto simp: slotOK_def)
  have pr: "p \<notin> resolved w" if "blockedOn dep w" "a = START" for dep
    using waitingD(1)[OF invD(2)[OF i that(1)]] pw[OF that] by blast
  have "thenOK w p (CPlayback a)"
    using r pw pr by (cases a) (auto simp: thenOK_def microOK_def reactOK_def)
  from inv_promiseThen[OF i this] show ?thesis
    using r Some by (simp add: playbackWhenReady_def)
qed

lemma slotOK_upd [simp]:
  "slotOK a x (w\<lparr>scheduledActivity := b, scheduledWait := y\<rparr>) = slotOK a x w"
  "slotOK a x (w\<lparr>runner := c\<rparr>) = slotOK a x w"
  by (simp_all add: slotOK_def split: option.splits)

lemma inv_playback:
  assumes i: "runnerInv w" and ok: "slotOK a x w"
  shows "\<exists>w'. playback a x w = Inr w' \<and> runnerInv w'"
proof -
  let ?v = "w\<lparr>scheduledActivity := Some a, scheduledWait := x\<rparr>"
  have iv: "runnerInv ?v"
    using i ok by (intro inv_slot) (auto simp: slotOK_def)
  show ?thesis
  proof (cases "runner w")
    case True
    then show ?thesis
      using inv_playbackWhenReady[OF iv, of a x] ok by (simp add: playback_def)
  next
    case False
    then show ?thesis using iv by (simp add: playback_def)
  qed
qed

lemma inv_start:
  assumes i: "runnerInv w"
  shows "\<exists>w'. start w = Inr w' \<and> runnerInv w'"
proof (cases "hasStarted w")
  case True
  then show ?thesis using i by (simp add: start_def)
next
  case False
  obtain p v where g: "getStartWaitPromise w = (p, v)" by force
  have "waitOK (p, v)" using getStartWaitPromise_ok[OF i] g by simp
  then have iv: "runnerInv v" and ok: "slotOK START (Some p) v"
    by (auto simp: waitOK_def slotOK_def)
  show ?thesis using inv_playback[OF iv ok] False g by (simp add: start_def)
qed

lemma inv_runner_notifyFinish:
  "runnerInv w \<Longrightarrow> \<exists>w'. runner_notifyFinish w = Inr w' \<and> runnerInv w'"
  by (simp add: runner_notifyFinish_def inv_notifyFinish)

lemma inv_finish:
  assumes i: "runnerInv w"
  shows "\<exists>w'. finish w = Inr w' \<and> runnerInv w'"
proof -
  obtain w1 where w1: "(if firstFrameApplied w then runner_notifyFinish w else Inr w) = Inr w1"
    and i1: "runnerInv w1"
    using inv_runner_notifyFinish[OF i] i by (cases "firstFrameApplied w") auto
  have "runnerInv (resetFirstFrame w1)" using i1 by (rule inv_resetFirstFrame)
  from inv_playback[OF this, of FINISH None] show ?thesis
    using w1 by (simp add: finish_def slotOK_def)
qed

lemma inv_cancel:
  assumes i: "runnerInv w"
  shows "\<exists>w'. cancel w = Inr w' \<and> runnerInv w'"
proof -
  let ?v = "w\<lparr>scheduledActivity := None, scheduledWait := None\<rparr>"
  have iv: "runnerInv ?v" using i by (intro inv_slot) simp_all
  show ?thesis
  proof (cases "hasStarted ?v")
    case True
    then have r: "runner ?v" by (simp add: hasStarted_def isActivityScheduled_def)
    have "runnerInv (logEffect HostCancel ?v)" using iv r by (intro inv_logEffect) simp_all
    then have "runnerInv ((logEffect HostCancel ?v)\<lparr>runnerReset := True\<rparr>)" by simp
    then show ?thesis using True r by (simp add: cancel_def Let_def)
  next
    case False
    then show ?thesis using iv by (simp add: cancel_def Let_def)
  qed
qed

lemma inv_onRunnerReady:
  assumes i: "runnerInv w"
  shows "\<exists>w'. onRunnerReady w = Inr w' \<and> runnerInv w'"
proof -
  let ?v = "w\<lparr>runner := True\<rparr>"
  have iv: "runnerInv ?v" using i by (rule inv_runner)
  show ?thesis
  proof (cases "scheduledActivity w")
    case None
    then show ?thesis using iv by (simp add: onRunnerReady_def isActivityScheduled_def)
  next
    case (Some a)
    have A: "\<exists>p. scheduledWait w = Some p \<and> p \<in> waitTargets w" if "a = START" "blockedOn dep w" for dep
      using waitingD(6)[OF invD(2)[OF i that(2)]] Some that(1) by simp
    have "slotOK a (scheduledWait w) ?v"
      using A by (auto simp: slotOK_def)
    from inv_playbackWhenReady[OF iv _ this] show ?thesis
      using Some by (simp add: onRunnerReady_def isActivityScheduled_def)
  qed
qed

lemma inv_startWhenReady:
  assumes i: "runnerInv w" and r: "runner w" and nb: "\<And>dep. \<not> blockedOn dep w"
  shows "runnerInv (startWhenReady w)"
proof -
  let ?v = "resetFirstFrame (w\<lparr>runnerReset := False\<rparr>)"
  have iv: "runnerInv ?v" using i by (intro inv_resetFirstFrame) simp
  have "runnerInv (logEffect e ?v)" for e
    using iv r nb by (intro inv_logEffect) (simp_all add: resetFirstFrame_views)
  then show ?thesis by (simp add: startWhenReady_def Let_def)
qed

lemma inv_finishWhenReady:
  assumes i: "runnerInv w" and r: "runner w"
  shows "runnerInv (finishWhenReady w)"
proof -
  have "runnerInv (logEffect HostFinish w)" using i r by (intro inv_logEffect) simp_all
  then have "runnerInv ((logEffect HostFinish w)\<lparr>runnerReset := True\<rparr>)" by simp
  then show ?thesis using i by (simp add: finishWhenReady_def)
qed

lemma inv_playbackCallback:
  assumes i: "runnerInv w" and r: "runner w" and nb: "\<And>dep. blockedOn dep w \<Longrightarrow> a = FINISH"
  shows "runnerInv (playbackCallback a w)"
proof (cases "isActivityScheduled (Some a) w")
  case False
  then show ?thesis using i by (simp add: playbackCallback_def)
next
  case True
  let ?v = "w\<lparr>scheduledActivity := None, scheduledWait := None\<rparr>"
  have iv: "runnerInv ?v" using i by (intro inv_slot) simp_all
  show ?thesis
  proof (cases a)
    case START
    then have "\<And>dep. \<not> blockedOn dep ?v" using nb by (auto simp: blockedOn_def)
    from inv_startWhenReady[OF iv _ this] show ?thesis
      using True START r by (simp add: playbackCallback_def)
  next
    case FINISH
    from inv_finishWhenReady[OF iv] show ?thesis
      using True FINISH r by (simp add: playbackCallback_def)
  qed
qed

lemma wellformed_popVsync:
  assumes wf: "wellformed w" and m: "vsyncQueue w = t # ts"
  shows "wellformed (w\<lparr>vsyncQueue := ts\<rparr>)"
proof (rule wellformedI)
  let ?w = "w\<lparr>vsyncQueue := ts\<rparr>"
  note D = wellformedD[OF wf]
  have T: "applyTargets ?w \<subseteq> applyTargets w"
    using m by (auto simp: applyTargets_def conts_def)
  show "\<And>i p. subscriptionPromises ?w i = Some p \<Longrightarrow> subscriptionResolvers ?w i = Some p"
    using D(1) by simp
  show "\<And>i j p. subscriptionPromises ?w i = Some p \<Longrightarrow> subscriptionPromises ?w j = Some p \<Longrightarrow> i = j"
    using D(2) by simp
  show "inFlight ?w \<inter> (resolved ?w \<union> {keyframesPromise} \<union> set (timers ?w) \<union> waitTargets ?w \<union> applyTargets ?w) = {}"
    using D(3) T by (simp, blast)
  show "inFlight ?w \<union> resolved ?w \<union> set (timers ?w) \<union> waitTargets ?w \<union> applyTargets ?w \<subseteq> {..<nextPid ?w}"
    using D(4) T by (simp, blast)
  show "keyframesPromise < nextPid ?w" using D(5) by simp
  show "waitTargets ?w \<inter> applyTargets ?w = {}" using D(6) T by (simp, blast)
  show "keyframesPromise \<notin> waitTargets ?w \<union> applyTargets ?w" using D(7) T by (simp, blast)
  show "\<not> runner ?w \<Longrightarrow> (\<forall>k \<in> conts ?w. \<not> isPlayback k) \<and> (\<forall>e \<in> set (effects ?w). \<not> isHostCall e)"
    using D(8) by simp
qed

lemma inv_popVsync: "runnerInv w \<Longrightarrow> vsyncQueue w = t # ts \<Longrightarrow> runnerInv (w\<lparr>vsyncQueue := ts\<rparr>)"
  by (simp add: runnerInv_def wellformed_popVsync)

lemma inv_effects_styles:
  assumes "runnerInv w" "\<forall>e \<in> set es. \<not> isHostCall e \<and> \<not> startEffect e \<and> (\<forall>i. e \<noteq> WaitResolved i)"
  shows "runnerInv (w\<lparr>effects := effects w @ es\<rparr>)"
proof -
  let ?w = "w\<lparr>effects := effects w @ es\<rparr>"
  have b: "blockedOn dep ?w = blockedOn dep w" for dep
    using assms(2) by (auto simp: blockedOn_def)
  have "wellformed ?w" using invD(1)[OF assms(1)] assms(2) by (auto simp: wellformed_def)
  moreover have "waiting dep ?w" if "blockedOn dep w" for dep
    using invD(2)[OF assms(1) that] assms(2) by (auto simp: waiting_def)
  ultimately show ?thesis by (simp add: runnerInv_def b)
qed

lemma inv_runMutation:
  assumes i: "runnerInv w" and m: "vsyncQueue w = t # ts"
  shows "runnerInv (runMutation t (w\<lparr>vsyncQueue := ts\<rparr>))"
proof (cases t)
  case (MutReset props)
  have "runnerInv (logEffect (ResetStyles props) (w\<lparr>vsyncQueue := ts\<rparr>))"
    using inv_popVsync[OF i m] by (intro inv_logEffect) simp_all
  then show ?thesis using MutReset by (simp add: runMutation_def)
next
  case (MutApply q f)
  let ?v = "w\<lparr>vsyncQueue := ts\<rparr>"
  let ?u = "?v\<lparr>effects := effects ?v @ map (\<lambda>(k, v). SetStyle k v) (filter (\<lambda>(k, v). k \<noteq> ''offset'') f)\<rparr>"
  have wf: "wellformed w" using i by (rule invD)
  note D = wellformedD[OF wf]
  have q: "q \<in> applyTargets w" using m MutApply by (auto simp: applyTargets_def)
  have iu: "runnerInv ?u"
    using inv_popVsync[OF i m] by (intro inv_effects_styles) auto
  have "runnerInv (resolve q ?u)"
  proof (rule inv_resolve[OF iu])
    show "q < nextPid ?u" using D(4) q by auto
    show "q \<notin> inFlight ?u" using D(3) q by auto
    show "\<forall>dep. blockedOn dep ?u \<longrightarrow> q \<notin> waitTargets ?u" using D(6) q by auto
  qed
  then show ?thesis using MutApply by (simp add: runMutation_def)
qed

lemma blocked_micro:
  assumes "runnerInv w" "microtasks w = k # ks" "blockedOn dep w"
  shows "microOK dep k"
  using inv_popD(3)[OF assms] .

lemma inv_pushVsync:
  assumes i: "runnerInv w" and t: "taskTarget t \<subseteq> applyTargets w"
  shows "runnerInv (w\<lparr>vsyncQueue := vsyncQueue w @ [t]\<rparr>)"
proof -
  let ?w = "w\<lparr>vsyncQueue := vsyncQueue w @ [t]\<rparr>"
  have T: "applyTargets ?w = applyTargets w"
    using t by (auto simp: applyTargets_def conts_def)
  have "wellformed ?w"
    using invD(1)[OF i] unfolding wellformed_def T by simp
  then show ?thesis using i by (simp add: runnerInv_def)
qed

lemma inv_runCont_apply:
  assumes i: "runnerInv w" and m: "microtasks w = CApplyFirstFrame q # ks"
  shows "runnerInv (runCont (CApplyFirstFrame q) (w\<lparr>microtasks := ks\<rparr>))"
proof -
  let ?v = "w\<lparr>microtasks := ks\<rparr>"
  have iv: "runnerInv ?v" using i m by (rule inv_pop) simp
  have wfv: "wellformed ?v" using iv by (rule invD)
  note D = wellformedD[OF invD(1)[OF i]] and T = targets_pop[OF m]
  have q: "q \<in> applyTargets w" using T(2) by simp
  have "runnerInv (?v\<lparr>vsyncQueue := vsyncQueue ?v @ [MutApply q f]\<rparr>)" for f
  proof -
    let ?u = "?v\<lparr>vsyncQueue := vsyncQueue ?v @ [MutApply q f]\<rparr>"
    have A: "applyTargets ?u = insert q (applyTargets ?v)"
      by (auto simp: applyTargets_def conts_def)
    have B: "insert q (applyTargets ?v) = applyTargets w" using T(2) by auto
    have W: "waitTargets ?v = waitTargets w" using T(1) by simp
    have "wellformed ?u"
    proof (rule wellformedI)
      show "\<And>i p. subscriptionPromises ?u i = Some p \<Longrightarrow> subscriptionResolvers ?u i = Some p"
        using D(1) by simp
      show "\<And>i j p. subscriptionPromises ?u i = Some p \<Longrightarrow> subscriptionPromises ?u j = Some p \<Longrightarrow> i = j"
        using D(2) by simp
      show "inFlight ?u \<inter> (resolved ?u \<union> {keyframesPromise} \<union> set (timers ?u) \<union> waitTargets ?u \<union> applyTargets ?u) = {}"
        unfolding A B using D(3) by (simp add: W)
      show "inFlight ?u \<union> resolved ?u \<union> set (timers ?u) \<union> waitTargets ?u \<union> applyTargets ?u \<subseteq> {..<nextPid ?u}"
        unfolding A B using D(4) by (simp add: W)
      show "keyframesPromise < nextPid ?u" using D(5) by simp
      show "waitTargets ?u \<inter> applyTargets ?u = {}" unfolding A B using D(6) by (simp add: W)
      show "keyframesPromise \<notin> waitTargets ?u \<union> applyTargets ?u" unfolding A B using D(7) by (simp add: W)
      show "\<not> runner ?u \<Longrightarrow> (\<forall>k \<in> conts ?u. \<not> isPlayback k) \<and> (\<forall>e \<in> set (effects ?u). \<not> isHostCall e)"
        using wellformedD(8)[OF wfv] by simp
    qed
    then show ?thesis using iv by (simp add: runnerInv_def)
  qed
  then show ?thesis using iv
    by (simp add: runCont_def split: option.splits list.splits)
qed

lemma inv_newTimer:
  assumes i: "runnerInv w" and nb: "\<And>dep. \<not> blockedOn dep w"
  shows "runnerInv ((snd (newPromise w))\<lparr>timers := timers w @ [nextPid w]\<rparr>)"
proof -
  let ?u = "(snd (newPromise w))\<lparr>timers := timers w @ [nextPid w]\<rparr>"
  have wf: "wellformed w" using i by (rule invD)
  note D = wellformedD[OF wf] and F = fresh_nextPid[OF wf]
  have f: "inFlight ?u = inFlight w" "waitTargets ?u = waitTargets w" "applyTargets ?u = applyTargets w"
    "conts ?u = conts w" "nextPid ?u = Suc (nextPid w)" "resolved ?u = resolved w"
    "set (timers ?u) = insert (nextPid w) (set (timers w))" "runner ?u = runner w" "effects ?u = effects w"
    "subscriptionPromises ?u = subscriptionPromises w" "subscriptionResolvers ?u = subscriptionResolvers w"
    by (simp_all add: views)
  have "wellformed ?u"
  proof (rule wellformedI, unfold f)
    show "\<And>i p. subscriptionPromises w i = Some p \<Longrightarrow> subscriptionResolvers w i = Some p" by (rule D(1))
    show "\<And>i j p. subscriptionPromises w i = Some p \<Longrightarrow> subscriptionPromises w j = Some p \<Longrightarrow> i = j" by (rule D(2))
    show "inFlight w \<inter> (resolved w \<union> {keyframesPromise} \<union> insert (nextPid w) (set (timers w)) \<union> waitTargets w \<union> applyTargets w) = {}"
      using D(3) F(1) by blast
    show "inFlight w \<union> resolved w \<union> insert (nextPid w) (set (timers w)) \<union> waitTargets w \<union> applyTargets w \<subseteq> {..<Suc (nextPid w)}"
      using D(4) by (auto simp: less_Suc_eq)
    show "keyframesPromise < Suc (nextPid w)" using D(5) by simp
    show "waitTargets w \<inter> applyTargets w = {}" by (rule D(6))
    show "keyframesPromise \<notin> waitTargets w \<union> applyTargets w" by (rule D(7))
    show "\<not> runner w \<Longrightarrow> (\<forall>k \<in> conts w. \<not> isPlayback k) \<and> (\<forall>e \<in> set (effects w). \<not> isHostCall e)" by (rule D(8))
  qed
  moreover have "\<not> blockedOn dep ?u" for dep using nb[of dep] by (simp add: blockedOn_def views)
  ultimately show ?thesis by (simp add: runnerInv_def)
qed

lemma inv_runCont_timer:
  assumes i: "runnerInv w" and m: "microtasks w = CTimer q # ks"
  shows "runnerInv (runCont (CTimer q) (w\<lparr>microtasks := ks\<rparr>))"
proof -
  let ?v = "w\<lparr>microtasks := ks\<rparr>"
  have nb: "\<not> blockedOn dep w" for dep
    using blocked_micro[OF i m, of dep] by (auto simp: microOK_def)
  then have nbv: "\<And>dep. \<not> blockedOn dep ?v" by simp
  have iv: "runnerInv ?v" using i m nb by (intro inv_pop) auto
  let ?p = "nextPid w"
  let ?u = "(snd (newPromise ?v))\<lparr>timers := timers ?v @ [nextPid ?v]\<rparr>"
  let ?l = "logEffect (TimerPromise (delay w)) ?u"
  have iu: "runnerInv ?u" using iv nbv by (rule inv_newTimer)
  have nbu: "\<And>dep. \<not> blockedOn dep ?u" using nb by (simp add: blockedOn_def views)
  have il: "runnerInv ?l" using iu nbu by (intro inv_logEffect) simp_all
  have nbl: "\<And>dep. \<not> blockedOn dep ?l" using nbu by (simp add: views)
  note P = inv_popD[OF i m]
  have a: "applyTargets ?l \<subseteq> applyTargets w" using targets_pop(2)[OF m] by (simp add: views)
  have ok: "thenOK ?l ?p (CAdopt q)"
    using P(1,4) a nbl by (auto simp: thenOK_def views less_Suc_eq)
  have e: "runCont (CTimer q) ?v = promiseThen ?p (CAdopt q) ?l"
    by (simp add: runCont_def split_beta views newPromise_def logEffect_def)
  show ?thesis unfolding e using il ok by (rule inv_promiseThen)
qed

lemma inv_runCont_adopt:
  assumes i: "runnerInv w" and m: "microtasks w = CAdopt q # ks"
  shows "runnerInv (runCont (CAdopt q) (w\<lparr>microtasks := ks\<rparr>))"
proof -
  let ?v = "w\<lparr>microtasks := ks\<rparr>"
  have nb: "\<not> blockedOn dep w" for dep
    using blocked_micro[OF i m, of dep] by (auto simp: microOK_def)
  have iv: "runnerInv ?v" using i m nb by (intro inv_pop) auto
  note P = inv_popD[OF i m]
  have "runnerInv (resolve q ?v)"
    using P(1) nb by (intro inv_resolve[OF iv]) auto
  then show ?thesis by (simp add: runCont_def)
qed

lemma inv_runCont_playback:
  assumes i: "runnerInv w" and m: "microtasks w = CPlayback a # ks"
  shows "runnerInv (runCont (CPlayback a) (w\<lparr>microtasks := ks\<rparr>))"
proof -
  let ?v = "w\<lparr>microtasks := ks\<rparr>"
  have iv: "runnerInv ?v" using i m by (rule inv_pop) simp
  have r: "runner ?v" using inv_popD(2)[OF i m] by simp
  have f: "a = FINISH" if "blockedOn dep ?v" for dep
    using blocked_micro[OF i m, of dep] that by (simp add: microOK_def)
  show ?thesis using inv_playbackCallback[OF iv r f] by (simp add: runCont_def)
qed

lemma inv_runCont_plain:
  assumes i: "runnerInv w" and m: "microtasks w = k # ks" and k: "k = CResetFirstFrame \<or> k = CAssertOffset"
  shows "runnerInv (runCont k (w\<lparr>microtasks := ks\<rparr>))"
proof -
  let ?v = "w\<lparr>microtasks := ks\<rparr>"
  have iv: "runnerInv ?v" using i m k by (intro inv_pop) auto
  have "runnerInv (?v\<lparr>vsyncQueue := vsyncQueue ?v @ [MutReset ps]\<rparr>)" for ps
    using iv by (rule inv_pushVsync) simp
  then show ?thesis using iv k
    by (auto simp: runCont_def split: option.splits list.splits)
qed

lemma inv_runCont_waitFor:
  assumes i: "runnerInv w" and m: "microtasks w = CWaitFor j q # ks"
  shows "runnerInv (runCont (CWaitFor j q) (w\<lparr>microtasks := ks\<rparr>))"
proof -
  let ?v = "w\<lparr>microtasks := ks\<rparr>"
  let ?p = "fst (waitFor j ?v)"
  let ?w1 = "snd (waitFor j ?v)"
  let ?r = "promiseThen ?p (CAdopt q) ?w1"
  have e: "runCont (CWaitFor j q) ?v = ?r" by (simp add: runCont_def split_beta)
  have wf: "wellformed w" using i by (rule invD)
  have wfv: "wellformed ?v" using wf m by (rule wellformed_pop)
  have wf1: "wellformed ?w1" using wfv by (rule wellformed_waitFor)
  note P = inv_popD[OF i m] and T = targets_pop[OF m]
  have pend: "?p \<notin> resolved ?w1" using waitFor_pending(1)[OF wfv] .
  have qb: "q < nextPid w" "q \<notin> inFlight w" "q \<noteq> keyframesPromise" "q \<notin> applyTargets w"
    using P(1,4) by auto
  have qp: "q \<noteq> ?p" using waitFor_nextPid(2)[of j ?v] qb by auto
  have at: "applyTargets ?w1 \<subseteq> applyTargets w" using T(2) by (simp add: waitFor_fields)
  have bl: "j = dep \<and> q \<notin> resolved w" if "blockedOn dep w" for dep
  proof -
    have "j = dep" using blocked_micro[OF i m that] by (simp add: microOK_def)
    moreover have "q \<in> waitTargets w" using T(1) by simp
    ultimately show ?thesis using waitingD(1)[OF invD(2)[OF i that]] by blast
  qed
  have ok: "thenOK ?w1 ?p (CAdopt q)"
    unfolding thenOK_def
  proof (intro conjI allI impI)
    show "waitTarget (CAdopt q) \<union> applyTarget (CAdopt q) \<subseteq> {..<nextPid ?w1} - inFlight ?w1 - {keyframesPromise}"
      using qb qp waitFor_nextPid(1)[of ?v j] by (auto simp: waitFor_inFlight)
    show "waitTarget (CAdopt q) \<inter> applyTargets ?w1 = {}" using qb at by auto
    show "applyTarget (CAdopt q) \<inter> waitTargets ?w1 = {}" by simp
    show "runner ?w1" if "isPlayback (CAdopt q)" using that by simp
    show "waitTarget (CAdopt q) \<inter> resolved ?w1 = {}" if "blockedOn dep ?w1" for dep
      using bl[of dep] that by (simp add: waitFor_fields)
    show "if ?p \<in> resolved ?w1 then microOK dep (CAdopt q) else reactOK dep ?w1 ?p (CAdopt q)"
      if "blockedOn dep ?w1" for dep
      using bl[of dep] that pend by (simp add: waitFor_fields reactOK_def)
  qed
  have wfr: "wellformed ?r" using wf1 ok by (rule wellformed_promiseThen)
  have "waiting dep ?r" if b: "blockedOn dep ?r" for dep
  proof -
    from b have bw: "blockedOn dep w" by (simp add: views waitFor_fields)
    note W = waitingD[OF invD(2)[OF i bw]]
    have jd: "j = dep" using bl[OF bw] by simp
    have wt: "waitTargets ?r = waitTargets w"
      using T(1) by (simp add: views waitFor_fields)
    have sp: "subscriptionPromises ?r dep = Some ?p"
      by (simp add: views waitFor_fields jd)
    have ro: "reactOK dep ?r p' k'" if "reactOK dep w p' k'" for p' k'
    proof (cases k')
      case (CAdopt q')
      with that have "subscriptionPromises w dep = Some p'" by (simp add: reactOK_def)
      then have "subscriptionPromises ?v j = Some p'" by (simp add: jd)
      then have "?p = p'" by (simp add: waitFor_Some)
      then show ?thesis using sp CAdopt by (simp add: reactOK_def)
    qed (use that wt in \<open>simp_all add: reactOK_def\<close>)
    show ?thesis
    proof (rule waitingI)
      show "waitTargets ?r \<inter> resolved ?r = {}"
        unfolding wt using W(1) by (simp add: views waitFor_fields)
      show "timers ?r = []" using W(2) by (simp add: views waitFor_fields)
      show "\<And>e. e \<in> set (effects ?r) \<Longrightarrow> \<not> startEffect e"
        using W(3) by (simp add: views waitFor_fields)
      show "\<And>k. k \<in> set (microtasks ?r) \<Longrightarrow> microOK dep k"
        using W(4) pend m by (simp add: promiseThen_queues waitFor_fields)
      show "\<And>r. r \<in> set (reactions ?r) \<Longrightarrow> reactOK dep ?r (fst r) (snd r)"
      proof -
        fix r assume "r \<in> set (reactions ?r)"
        then have "r \<in> set (reactions w) \<or> r = (?p, CAdopt q)"
          using pend by (auto simp: promiseThen_queues waitFor_fields)
        then show "reactOK dep ?r (fst r) (snd r)"
        proof
          assume "r \<in> set (reactions w)"
          from ro[OF W(5)[OF this]] show ?thesis .
        next
          assume "r = (?p, CAdopt q)"
          then show ?thesis using sp by (simp add: reactOK_def)
        qed
      qed
      show "scheduledActivity ?r = Some START \<Longrightarrow> \<exists>p. scheduledWait ?r = Some p \<and> p \<in> waitTargets ?r"
        unfolding wt using W(6) by (simp add: views waitFor_fields)
    qed
  qed
  then show ?thesis unfolding e using wfr by (simp add: runnerInv_def)
qed

lemma inv_runCont:
  assumes "runnerInv w" "microtasks w = k # ks"
  shows "runnerInv (runCont k (w\<lparr>microtasks := ks\<rparr>))"
proof (cases k)
  case (CWaitFor j q) then show ?thesis using assms inv_runCont_waitFor by simp
next
  case (CTimer q) then show ?thesis using assms inv_runCont_timer by simp
next
  case (CAdopt q) then show ?thesis using assms inv_runCont_adopt by simp
next
  case (CPlayback a) then show ?thesis using assms inv_runCont_playback by simp
next
  case (CApplyFirstFrame q) then show ?thesis using assms inv_runCont_apply by simp
next
  case CResetFirstFrame then show ?thesis using assms inv_runCont_plain by simp
next
  case CAssertOffset then show ?thesis using assms inv_runCont_plain by simp
qed

lemma inv_keyframes_resolve:
  assumes i: "runnerInv w"
  shows "runnerInv (resolve keyframesPromise (w\<lparr>keyframes := x\<rparr>))"
proof -
  note D = wellformedD[OF invD(1)[OF i]]
  show ?thesis
    using D(3,5,7) by (intro inv_resolve) (auto simp: i)
qed

lemma inv_timerFire:
  assumes i: "runnerInv w" and p: "p \<in> set (timers w)"
  shows "runnerInv (resolve p (w\<lparr>timers := removeAll p (timers w)\<rparr>))"
proof -
  let ?v = "w\<lparr>timers := removeAll p (timers w)\<rparr>"
  note D = wellformedD[OF invD(1)[OF i]]
  have nb: "\<not> blockedOn dep w" for dep
    using waitingD(2)[OF invD(2)[OF i, of dep]] p by auto
  have "wellformed ?v"
    using invD(1)[OF i] by (auto simp: wellformed_def waitTargets_def applyTargets_def conts_def inFlight_def)
  moreover have "\<not> blockedOn dep ?v" for dep using nb[of dep] by (simp add: blockedOn_def)
  ultimately have iv: "runnerInv ?v" by (simp add: runnerInv_def)
  have "p < nextPid w" "p \<notin> inFlight w" using D(3,4) p by auto
  then show ?thesis using nb
    by (intro inv_resolve[OF iv]) (auto simp: blockedOn_def inFlight_def)
qed

lemma inv_step:
  assumes i: "runnerInv w"
  shows "\<exists>w'. step ev w = Inr w' \<and> runnerInv w'"
proof (cases ev)
  case CallApplyFirstFrame
  then show ?thesis using inv_applyFirstFrame[OF i] by (simp add: step_def)
next
  case CallStart then show ?thesis using inv_start[OF i] by (simp add: step_def)
next
  case CallFinish then show ?thesis using inv_finish[OF i] by (simp add: step_def)
next
  case CallCancel then show ?thesis using inv_cancel[OF i] by (simp add: step_def)
next
  case Tick
  then show ?thesis using i inv_runCont[OF i]
    by (cases "microtasks w") (simp_all add: step_def)
next
  case RunnerReady
  then show ?thesis using i inv_onRunnerReady[OF i] by (simp add: step_def)
next
  case (Measure dims)
  then show ?thesis using i inv_keyframes_resolve[OF i]
    by (simp add: step_def split: KeyframesOrFilterFnDef.splits)
next
  case VsyncMutate
  then show ?thesis using i inv_runMutation[OF i]
    by (cases "vsyncQueue w") (simp_all add: step_def)
next
  case (TimerFire p)
  then show ?thesis using i inv_timerFire[OF i] by (simp add: step_def)
next
  case (PlayStateChanged st)
  have "runnerInv (w\<lparr>playState := st\<rparr>)" using i by simp
  from inv_runner_notifyFinish[OF this] show ?thesis
    using PlayStateChanged i by (auto simp: step_def Let_def)
next
  case (OtherNotifyFinish j)
  then show ?thesis using inv_notifyFinish[OF i] by (simp add: step_def)
next
  case (OtherWaitFor j)
  then show ?thesis using inv_waitFor[OF i] by (simp add: step_def)
qed

lemma inv_run: "runnerInv w \<Longrightarrow> \<exists>w'. run evs w = Inr w' \<and> runnerInv w'"
proof (induction evs arbitrary: w)
  case Nil
  then show ?case by simp
next
  case (Cons ev evs)
  from inv_step[OF Cons.prems, of ev] obtain w1 where "step ev w = Inr w1" "runnerInv w1" by blast
  with Cons.IH[of w1] show ?case by simp
qed

lemma config_prims [simp]:
  "config (promiseThen p k w) = config w"
  "config (resolve p w) = config w"
  "config (snd (newPromise w)) = config w"
  "config (snd (promiseResolve w)) = config w"
  "config (logEffect e w) = config w"
  "config (snd (waitFor i w)) = config w"
  by (simp_all add: config_def views waitFor_fields)

lemma config_upd [simp]:
  "config (scheduledActivity_update f1 w) = config w"
  "config (scheduledWait_update f2 w) = config w"
  "config (runner_update f3 w) = config w"
  "config (runnerReset_update f4 w) = config w"
  "config (firstFrameApplied_update f5 w) = config w"
  "config (playState_update f6 w) = config w"
  "config (keyframes_update f7 w) = config w"
  "config (effects_update f8 w) = config w"
  "config (microtasks_update f9 w) = config w"
  "config (vsyncQueue_update f10 w) = config w"
  "config (timers_update f11 w) = config w"
  "config (subscriptionPromises_update f12 w) = config w"
  by (simp_all add: config_def)

lemma config_notifyFinish: "notifyFinish i w = Inr w' \<Longrightarrow> config w' = config w"
  by (auto simp: notifyFinish_def Let_def split: if_splits option.splits)

lemma config_runner_notifyFinish: "runner_notifyFinish w = Inr w' \<Longrightarrow> config w' = config w"
  by (auto simp: runner_notifyFinish_def config_notifyFinish split: if_splits)

lemma config_playback: "playback a x w = Inr w' \<Longrightarrow> config w' = config w"
  by (auto simp: playback_def playbackWhenReady_def Let_def split_beta split: if_splits option.splits)

lemma config_getStartWaitPromise: "config (snd (getStartWaitPromise w)) = config w"
  by (simp add: getStartWaitPromise_eq depStep_def delayStep_def split: option.splits)

lemma config_start: "start w = Inr w' \<Longrightarrow> config w' = config w"
  by (auto simp: start_def split_beta config_getStartWaitPromise dest!: config_playback split: if_splits)

lemma config_resetFirstFrame [simp]: "config (resetFirstFrame w) = config w"
  by (simp add: resetFirstFrame_def)

lemma config_finish: "finish w = Inr w' \<Longrightarrow> config w' = config w"
  by (auto simp: finish_def dest!: config_playback config_runner_notifyFinish split: if_splits sum.splits)

lemma config_cancel: "cancel w = Inr w' \<Longrightarrow> config w' = config w"
  by (auto simp: cancel_def Let_def split: if_splits)

lemma config_onRunnerReady: "onRunnerReady w = Inr w' \<Longrightarrow> config w' = config w"
  by (auto simp: onRunnerReady_def playbackWhenReady_def Let_def split_beta split: if_splits option.splits)

lemma config_playbackCallback [simp]: "config (playbackCallback a w) = config w"
  by (simp add: playbackCallback_def startWhenReady_def finishWhenReady_def Let_def split: PlaybackActivity.splits)

lemma config_runCont [simp]: "config (runCont k w) = config w"
  by (cases k) (simp_all add: runCont_def split_beta split: option.splits list.splits)

lemma config_runMutation [simp]: "config (runMutation t w) = config w"
  by (cases t) (simp_all add: runMutation_def)

lemma config_applyFirstFrame [simp]: "config (snd (applyFirstFrame w)) = config w"
  by (simp add: applyFirstFrame_def split_beta)

lemma config_step: "step ev w = Inr w' \<Longrightarrow> config w' = config w"
  by (cases ev)
     (auto simp: step_def Let_def dest: config_start config_finish config_cancel config_onRunnerReady
        config_notifyFinish config_runner_notifyFinish
        split: list.splits if_splits KeyframesOrFilterFnDef.splits)

lemma config_run: "run evs w = Inr w' \<Longrightarrow> config w' = config w"
proof (induction evs arbitrary: w)
  case Nil then show ?case by simp
next
  case (Cons ev evs)
  then show ?case by (auto split: sum.splits dest: config_step)
qed

lemma config_new: "AnimationRunner_new d = Inr w \<Longrightarrow> animationDef w = d \<and> target w = def_target d"
  by (auto simp: AnimationRunner_new_def Let_def promiseThen_def split: if_splits)

lemma reachable_inv:
  assumes "AnimationRunner_new d = Inr w0" "run evs w0 = Inr w"
  shows "runnerInv w" "animationDef w = d" "target w = def_target d"
proof -
  from inv_run[OF inv_new[OF assms(1)], of evs] assms(2) show "runnerInv w" by simp
  from config_run[OF assms(2)] config_new[OF assms(1)]
  show "animationDef w = d" "target w = def_target d" by (simp_all add: config_def)
qed

lemmas eval_defs = newRun_def effectsOf_def microtasksOf_def pendingWaitOf_def
  AnimationRunner_new_def step_def start_def finish_def cancel_def applyFirstFrame_def
  resetFirstFrame_def getStartWaitPromise_def playback_def playbackWhenReady_def playbackCallback_def
  onRunnerReady_def startWhenReady_def finishWhenReady_def hasStarted_def isActivityScheduled_def
  runner_notifyFinish_def notifyFinish_def waitFor_def runCont_def runMutation_def
  promiseResolve_def newPromise_def promiseThen_def resolve_def logEffect_def keyframesPromise_def
  orDefault_def Let_def
  exDefA_def exDefB_def exDefZero_def exPreset_def exPresetNoDelay_def exElementA_def exElementB_def

lemma notifyFinish_other:
  "notifyFinish j w = Inr w' \<Longrightarrow> j \<noteq> i \<Longrightarrow> subscriptionPromises w' i = subscriptionPromises w i"
  by (auto simp: notifyFinish_def Let_def views split: if_splits option.splits)

lemma mapE_append_fail:
  "mapE f pre = Inr rs \<Longrightarrow> f x = Inl e \<Longrightarrow> mapE f (pre @ x # post) = Inl e"
  by (induction pre arbitrary: rs) (auto split: sum.splits)

lemma playback_fields:
  assumes "playback a x w = Inr w'"
  shows "effects w' = effects w" "resolved w \<subseteq> resolved w'"
    "subscriptionPromises w' = subscriptionPromises w" "vsyncQueue w' = vsyncQueue w"
    "firstFrameApplied w' = firstFrameApplied w" "scheduledActivity w' = Some a"
    "conts w \<subseteq> conts w'"
  using assms
  by (auto simp: playback_def playbackWhenReady_def Let_def split_beta views split: if_splits option.splits)

lemma playbackCalls_prims [simp]:
  "playbackCalls (promiseThen p k w) = playbackCalls w"
  "playbackCalls (resolve p w) = playbackCalls w"
  "playbackCalls (snd (newPromise w)) = playbackCalls w"
  "playbackCalls (snd (promiseResolve w)) = playbackCalls w"
  "playbackCalls (snd (waitFor i w)) = playbackCalls w"
  "playbackCalls (logEffect e w) = playbackCalls w @ (if isPlaybackCall e then [e] else [])"
  by (simp_all add: playbackCalls_def views waitFor_fields)

lemma playbackCalls_upd [simp]:
  "playbackCalls (scheduledActivity_update f1 w) = playbackCalls w"
  "playbackCalls (scheduledWait_update f2 w) = playbackCalls w"
  "playbackCalls (runner_update f3 w) = playbackCalls w"
  "playbackCalls (runnerReset_update f4 w) = playbackCalls w"
  "playbackCalls (firstFrameApplied_update f5 w) = playbackCalls w"
  "playbackCalls (playState_update f6 w) = playbackCalls w"
  "playbackCalls (keyframes_update f7 w) = playbackCalls w"
  "playbackCalls (microtasks_update f9 w) = playbackCalls w"
  "playbackCalls (vsyncQueue_update f10 w) = playbackCalls w"
  "playbackCalls (timers_update f11 w) = playbackCalls w"
  "playbackCalls (subscriptionPromises_update f12 w) = playbackCalls w"
  by (simp_all add: playbackCalls_def)

lemma playbackCalls_notifyFinish: "notifyFinish i w = Inr w' \<Longrightarrow> playbackCalls w' = playbackCalls w"
  by (auto simp: notifyFinish_def Let_def playbackCalls_def resolve_fields split: if_splits option.splits)

lemma playbackCalls_runner_notifyFinish:
  "runner_notifyFinish w = Inr w' \<Longrightarrow> playbackCalls w' = playbackCalls w"
  by (auto simp: runner_notifyFinish_def playbackCalls_notifyFinish split: if_splits)

lemma playbackCalls_playback: "playback a x w = Inr w' \<Longrightarrow> playbackCalls w' = playbackCalls w"
  by (auto simp: playback_def playbackWhenReady_def Let_def split_beta split: if_splits option.splits)

lemma playbackCalls_getStartWaitPromise: "playbackCalls (snd (getStartWaitPromise w)) = playbackCalls w"
  by (simp add: getStartWaitPromise_eq depStep_def delayStep_def split: option.splits)

lemma playbackCalls_start: "start w = Inr w' \<Longrightarrow> playbackCalls w' = playbackCalls w"
  by (auto simp: start_def split_beta playbackCalls_getStartWaitPromise dest!: playbackCalls_playback split: if_splits)

lemma playbackCalls_resetFirstFrame [simp]: "playbackCalls (resetFirstFrame w) = playbackCalls w"
  by (simp add: resetFirstFrame_def)

lemma playbackCalls_finish: "finish w = Inr w' \<Longrightarrow> playbackCalls w' = playbackCalls w"
  by (auto simp: finish_def dest!: playbackCalls_playback playbackCalls_runner_notifyFinish
           split: if_splits sum.splits)

lemma playbackCalls_cancel: "cancel w = Inr w' \<Longrightarrow> playbackCalls w' = playbackCalls w"
  by (auto simp: cancel_def Let_def split: if_splits)

lemma playbackCalls_onRunnerReady: "onRunnerReady w = Inr w' \<Longrightarrow> playbackCalls w' = playbackCalls w"
  by (auto simp: onRunnerReady_def playbackWhenReady_def Let_def split_beta split: if_splits option.splits)

lemma playbackCalls_runCont:
  "\<not> isPlayback k \<Longrightarrow> playbackCalls (runCont k w) = playbackCalls w"
  by (cases k) (simp_all add: runCont_def split_beta split: option.splits list.splits)

lemma playbackCalls_runMutation [simp]: "playbackCalls (runMutation t w) = playbackCalls w"
  by (cases t) (simp_all add: runMutation_def playbackCalls_def resolve_fields logEffect_fields
      filter_empty_conv split_beta)

lemma playbackCalls_applyFirstFrame [simp]: "playbackCalls (snd (applyFirstFrame w)) = playbackCalls w"
  by (simp add: applyFirstFrame_def split_beta)

lemma playbackCalls_step:
  assumes "step ev w = Inr w'" "playbackCalls w' \<noteq> playbackCalls w"
  shows "ev = Tick \<and> (\<exists>a ks. microtasks w = CPlayback a # ks)"
proof (cases ev)
  case Tick
  show ?thesis
  proof (cases "microtasks w")
    case Nil
    then show ?thesis using assms Tick by (simp add: step_def)
  next
    case (Cons k ks)
    then have "isPlayback k" using assms Tick playbackCalls_runCont[of k "w\<lparr>microtasks := ks\<rparr>"]
      by (auto simp: step_def)
    then show ?thesis using Cons Tick by (cases k) simp_all
  qed
qed (use assms in \<open>auto simp: step_def Let_def dest: playbackCalls_start playbackCalls_finish playbackCalls_cancel
        playbackCalls_onRunnerReady playbackCalls_notifyFinish playbackCalls_runner_notifyFinish
        split: list.splits if_splits KeyframesOrFilterFnDef.splits\<close>)

lemma quiet_prims:
  "quiet (promiseThen p k w) = (quiet w \<and> \<not> isPlayback k)"
  "quiet (resolve p w) = quiet w"
  "quiet (snd (newPromise w)) = quiet w"
  "quiet (snd (promiseResolve w)) = quiet w"
  "quiet (snd (waitFor i w)) = quiet w"
  "quiet (logEffect e w) = (quiet w \<and> \<not> isPlaybackCall e)"
  by (auto simp: quiet_def views waitFor_fields)

lemma quiet_upd [simp]:
  "quiet (runner_update f3 w) = quiet w"
  "quiet (runnerReset_update f4 w) = quiet w"
  "quiet (firstFrameApplied_update f5 w) = quiet w"
  "quiet (playState_update f6 w) = quiet w"
  "quiet (keyframes_update f7 w) = quiet w"
  "quiet (vsyncQueue_update f10 w) = quiet w"
  "quiet (timers_update f11 w) = quiet w"
  "quiet (subscriptionPromises_update f12 w) = quiet w"
  by (simp_all add: quiet_def)

lemma quiet_notifyFinish: "notifyFinish i w = Inr w' \<Longrightarrow> quiet w \<Longrightarrow> quiet w'"
  by (cases "subscriptionPromises w i"; cases "subscriptionResolvers w i")
     (auto simp: notifyFinish_None notifyFinish_Some quiet_prims, auto simp: notifyFinish_def)

lemma quiet_pop: "quiet w \<Longrightarrow> microtasks w = k # ks \<Longrightarrow> quiet (w\<lparr>microtasks := ks\<rparr>) \<and> \<not> isPlayback k"
  by (auto simp: quiet_def conts_def playbackCalls_def)

lemma quiet_runCont: "quiet w \<Longrightarrow> \<not> isPlayback k \<Longrightarrow> quiet (runCont k w)"
  by (cases k) (simp_all add: runCont_def split_beta quiet_prims split: option.splits list.splits)

lemma quiet_runMutation: "quiet w \<Longrightarrow> quiet (runMutation t w)"
  by (cases t) (auto simp: runMutation_def quiet_prims, simp add: quiet_def playbackCalls_def conts_resolve conts_def resolve_fields filter_empty_conv split_beta)

lemma quiet_cancel: "cancel w = Inr w' \<Longrightarrow> quiet w \<Longrightarrow> quiet w'"
  by (auto simp: cancel_def Let_def quiet_prims split: if_splits) (simp_all add: quiet_def playbackCalls_def conts_def)

lemma quiet_step:
  assumes "quiet w" "ev \<noteq> CallStart" "ev \<noteq> CallFinish" "step ev w = Inr w'"
  shows "quiet w'"
proof (cases ev)
  case CallApplyFirstFrame
  then show ?thesis using assms by (auto simp: step_def applyFirstFrame_def split_beta quiet_prims)
next
  case CallCancel
  then show ?thesis using assms quiet_cancel by (simp add: step_def)
next
  case Tick
  then show ?thesis using assms quiet_pop[OF assms(1)] quiet_runCont
    by (cases "microtasks w") (auto simp: step_def)
next
  case RunnerReady
  then show ?thesis using assms
    by (auto simp: step_def onRunnerReady_def isActivityScheduled_def Let_def quiet_def split: if_splits)
next
  case (Measure dims)
  then show ?thesis using assms
    by (auto simp: step_def quiet_prims split: if_splits KeyframesOrFilterFnDef.splits)
next
  case VsyncMutate
  then show ?thesis using assms quiet_runMutation
    by (cases "vsyncQueue w") (auto simp: step_def)
next
  case (TimerFire p)
  then show ?thesis using assms by (auto simp: step_def quiet_prims split: if_splits)
next
  case (PlayStateChanged st)
  then show ?thesis using assms
    by (auto simp: step_def Let_def runner_notifyFinish_def dest: quiet_notifyFinish split: if_splits)
next
  case (OtherNotifyFinish j)
  then show ?thesis using assms by (auto simp: step_def dest: quiet_notifyFinish)
next
  case (OtherWaitFor j)
  then show ?thesis using assms by (auto simp: step_def quiet_prims)
qed (use assms in simp_all)

lemma quiet_run:
  "quiet w \<Longrightarrow> CallStart \<notin> set evs \<Longrightarrow> CallFinish \<notin> set evs \<Longrightarrow> run evs w = Inr w' \<Longrightarrow> quiet w'"
proof (induction evs arbitrary: w)
  case Nil then show ?case by simp
next
  case (Cons ev evs)
  from Cons.prems(4) obtain v where s: "step ev w = Inr v" and r: "run evs v = Inr w'"
    by (auto split: sum.splits)
  have "quiet v" using quiet_step[OF Cons.prems(1) _ _ s] Cons.prems(2,3) by auto
  from Cons.IH[OF this _ _ r] Cons.prems(2,3) show ?case by simp
qed

lemma isPlaybackCall_isHostCall: "isPlaybackCall e \<Longrightarrow> isHostCall e"
  by (cases e) simp_all

lemma rp_promiseThen: "reactPending w \<Longrightarrow> p < nextPid w \<Longrightarrow> reactPending (promiseThen p k w)"
  by (auto simp: reactPending_def promiseThen_def)

lemma rp_resolve: "reactPending w \<Longrightarrow> reactPending (resolve p w)"
  by (auto simp: reactPending_def resolve_def)

lemma rp_alloc:
  "reactPending w \<Longrightarrow> reactPending (snd (newPromise w))"
  "reactPending w \<Longrightarrow> reactPending (snd (promiseResolve w))"
  "reactPending w \<Longrightarrow> reactPending (snd (waitFor i w))"
  "reactPending (logEffect e w) = reactPending w"
  by (auto simp: reactPending_def newPromise_def promiseResolve_def logEffect_def waitFor_def less_Suc_eq
           split: option.splits)

lemma rp_upd [simp]:
  "reactPending (scheduledActivity_update f1 w) = reactPending w"
  "reactPending (runner_update f3 w) = reactPending w"
  "reactPending (runnerReset_update f4 w) = reactPending w"
  "reactPending (firstFrameApplied_update f5 w) = reactPending w"
  "reactPending (playState_update f6 w) = reactPending w"
  "reactPending (keyframes_update f7 w) = reactPending w"
  "reactPending (effects_update f8 w) = reactPending w"
  "reactPending (microtasks_update f9 w) = reactPending w"
  "reactPending (vsyncQueue_update f10 w) = reactPending w"
  "reactPending (timers_update f11 w) = reactPending w"
  "reactPending (subscriptionPromises_update f12 w) = reactPending w"
  by (simp_all add: reactPending_def)

lemma rp_slot:
  "reactPending w \<Longrightarrow> (\<forall>p. x = Some p \<longrightarrow> p < nextPid w) \<Longrightarrow> reactPending (w\<lparr>scheduledWait := x\<rparr>)"
  by (simp add: reactPending_def)

lemma kf_bound: "runnerInv w \<Longrightarrow> keyframesPromise < nextPid w"
  using wellformedD(5) invD(1) by blast

lemma rp_applyFirstFrame: "runnerInv w \<Longrightarrow> reactPending w \<Longrightarrow> reactPending (snd (applyFirstFrame w))"
  using kf_bound[of w]
  by (auto simp: applyFirstFrame_def split_beta views intro!: rp_promiseThen rp_alloc)

lemma rp_resetFirstFrame: "runnerInv w \<Longrightarrow> reactPending w \<Longrightarrow> reactPending (resetFirstFrame w)"
  using kf_bound[of w] by (auto simp: resetFirstFrame_def views intro!: rp_promiseThen)

lemma rp_playbackWhenReady:
  assumes "reactPending w" "\<forall>p. x = Some p \<longrightarrow> p < nextPid w" "playbackWhenReady a x w = Inr w'"
  shows "reactPending w'"
  using assms
  by (auto simp: playbackWhenReady_def split_beta views intro!: rp_promiseThen rp_alloc
           split: if_splits option.splits)

lemma rp_playback:
  assumes "reactPending w" "\<forall>p. x = Some p \<longrightarrow> p < nextPid w" "playback a x w = Inr w'"
  shows "reactPending w'"
proof -
  let ?v = "w\<lparr>scheduledActivity := Some a, scheduledWait := x\<rparr>"
  have "reactPending ?v" using assms(1,2) by (simp add: reactPending_def)
  moreover have "\<forall>p. x = Some p \<longrightarrow> p < nextPid ?v" using assms(2) by simp
  ultimately show ?thesis
    using assms(3) rp_playbackWhenReady[of ?v x a w']
    by (auto simp: playback_def Let_def split: if_splits)
qed

lemma rp_depStep:
  assumes "reactPending w" "p < nextPid w"
  shows "reactPending (snd (depStep (p, w))) \<and> fst (depStep (p, w)) < nextPid (snd (depStep (p, w)))"
  using assms
  by (auto simp: depStep_def views intro!: rp_promiseThen rp_alloc split: option.splits)

lemma rp_delayStep:
  assumes "reactPending w" "p < nextPid w"
  shows "reactPending (snd (delayStep (p, w))) \<and> fst (delayStep (p, w)) < nextPid (snd (delayStep (p, w)))"
  using assms
  by (auto simp: delayStep_def views intro!: rp_promiseThen rp_alloc)

lemma rp_getStartWaitPromise:
  assumes "reactPending w"
  shows "reactPending (snd (getStartWaitPromise w))
       \<and> fst (getStartWaitPromise w) < nextPid (snd (getStartWaitPromise w))"
proof -
  have a: "reactPending (snd (promiseResolve w))" "fst (promiseResolve w) < nextPid (snd (promiseResolve w))"
    using assms by (simp_all add: rp_alloc views)
  obtain p v where d: "depStep (promiseResolve w) = (p, v)" by force
  have "reactPending v \<and> p < nextPid v"
    using rp_depStep[OF a] d by simp
  then show ?thesis
    using rp_delayStep[of v p] by (simp add: getStartWaitPromise_eq d)
qed

lemma rp_start: "reactPending w \<Longrightarrow> start w = Inr w' \<Longrightarrow> reactPending w'"
  using rp_getStartWaitPromise[of w]
  by (auto simp: start_def split_beta split: if_splits elim!: rp_playback[rotated 2])

lemma rp_notifyFinish: "reactPending w \<Longrightarrow> notifyFinish i w = Inr w' \<Longrightarrow> reactPending w'"
  by (auto simp: notifyFinish_def Let_def intro!: rp_resolve split: if_splits option.splits)

lemma rp_runner_notifyFinish: "reactPending w \<Longrightarrow> runner_notifyFinish w = Inr w' \<Longrightarrow> reactPending w'"
  by (auto simp: runner_notifyFinish_def rp_notifyFinish split: if_splits)

lemma rp_finish:
  assumes i: "runnerInv w" and r: "reactPending w" and f: "finish w = Inr w'"
  shows "reactPending w'"
proof -
  obtain w1 where w1: "(if firstFrameApplied w then runner_notifyFinish w else Inr w) = Inr w1"
    and p: "playback FINISH None (resetFirstFrame w1) = Inr w'"
    using f by (auto simp: finish_def split: sum.splits)
  have r1: "reactPending w1" using w1 r rp_runner_notifyFinish by (auto split: if_splits)
  have i1: "runnerInv w1" using w1 i inv_runner_notifyFinish[OF i] by (auto split: if_splits)
  have "reactPending (resetFirstFrame w1)" using i1 r1 by (rule rp_resetFirstFrame)
  then show ?thesis by (rule rp_playback[OF _ _ p]) simp
qed

lemma rp_cancel: "reactPending w \<Longrightarrow> cancel w = Inr w' \<Longrightarrow> reactPending w'"
  by (auto simp: cancel_def Let_def rp_alloc intro!: rp_slot split: if_splits)

lemma rp_onRunnerReady: "reactPending w \<Longrightarrow> onRunnerReady w = Inr w' \<Longrightarrow> reactPending w'"
  by (auto simp: onRunnerReady_def Let_def split: if_splits option.splits
           elim!: rp_playbackWhenReady[rotated 2]) (auto simp: reactPending_def)

lemma rp_playbackCallback: "runnerInv w \<Longrightarrow> reactPending w \<Longrightarrow> reactPending (playbackCallback a w)"
proof -
  assume i: "runnerInv w" and r: "reactPending w"
  let ?v = "w\<lparr>scheduledActivity := None, scheduledWait := None\<rparr>"
  have iv: "runnerInv ?v" using i by (intro inv_slot) simp_all
  have rv: "reactPending ?v" using r by (simp add: reactPending_def)
  have "reactPending (resetFirstFrame (?v\<lparr>runnerReset := False\<rparr>))"
    using iv rv by (intro rp_resetFirstFrame) simp_all
  then show ?thesis using r rv
    by (cases a) (auto simp: playbackCallback_def startWhenReady_def finishWhenReady_def Let_def rp_alloc)
qed

lemma rp_runCont:
  assumes i: "runnerInv w" and r: "reactPending w" and m: "microtasks w = k # ks"
  shows "reactPending (runCont k (w\<lparr>microtasks := ks\<rparr>))"
proof -
  let ?v = "w\<lparr>microtasks := ks\<rparr>"
  have rv: "reactPending ?v" using r by simp
  have wfv: "wellformed ?v" using wellformed_pop[OF invD(1)[OF i] m] .
  show ?thesis
  proof (cases k)
    case (CWaitFor j q)
    then show ?thesis using rv waitFor_pending(2)[OF wfv, of j]
      by (auto simp: runCont_def split_beta intro!: rp_promiseThen rp_alloc)
  next
    case (CTimer q)
    then show ?thesis using rv
      by (auto simp: runCont_def split_beta views rp_alloc intro!: rp_promiseThen rp_alloc(1))
  next
    case (CAdopt q)
    then show ?thesis using rv by (simp add: runCont_def rp_resolve)
  next
    case (CPlayback a)
    have "runnerInv ?v" using i m by (rule inv_pop) (simp add: CPlayback)
    then show ?thesis using rv CPlayback by (simp add: runCont_def rp_playbackCallback)
  qed (use rv in \<open>auto simp: runCont_def split: option.splits list.splits\<close>)
qed

lemma rp_step:
  assumes i: "runnerInv w" and r: "reactPending w" and s: "step ev w = Inr w'"
  shows "reactPending w'"
proof (cases ev)
  case Tick
  then show ?thesis using s r rp_runCont[OF i r] by (cases "microtasks w") (auto simp: step_def)
next
  case VsyncMutate
  then show ?thesis using s r
    by (cases "vsyncQueue w")
       (auto simp: step_def runMutation_def rp_alloc intro!: rp_resolve split: vsyncTask.splits)
next
  case (PlayStateChanged st)
  then show ?thesis using s r
    by (auto simp: step_def Let_def split: if_splits elim!: rp_runner_notifyFinish[rotated])
qed (use s r i in \<open>auto simp: step_def rp_applyFirstFrame rp_alloc
        elim: rp_start rp_finish rp_cancel rp_onRunnerReady rp_notifyFinish
        intro!: rp_resolve split: if_splits KeyframesOrFilterFnDef.splits\<close>)

lemma rp_run:
  "runnerInv w \<Longrightarrow> reactPending w \<Longrightarrow> run evs w = Inr w' \<Longrightarrow> reactPending w'"
proof (induction evs arbitrary: w)
  case Nil then show ?case by simp
next
  case (Cons ev evs)
  from Cons.prems(3) obtain v where s: "step ev w = Inr v" and r: "run evs v = Inr w'"
    by (auto split: sum.splits)
  have "runnerInv v" using inv_step[OF Cons.prems(1), of ev] s by simp
  moreover have "reactPending v" using rp_step[OF Cons.prems(1,2) s] .
  ultimately show ?case using Cons.IH r by blast
qed

lemma rp_new: "AnimationRunner_new d = Inr w \<Longrightarrow> reactPending w"
  by (auto simp: AnimationRunner_new_def Let_def promiseThen_def reactPending_def keyframesPromise_def
           split: if_splits KeyframesOrFilterFnDef.splits)

lemma playbackCallback_dropped:
  "scheduledActivity w = None \<Longrightarrow> playbackCallback a w = w"
  "scheduledActivity w \<noteq> Some FINISH \<Longrightarrow> playbackCallback FINISH w = w"
  by (cases a) (simp_all add: playbackCallback_def isActivityScheduled_def)

lemma playbackCallback_executes:
  assumes "scheduledActivity w = Some a"
  shows "scheduledActivity (playbackCallback a w) = None"
    and "playbackCallback b (playbackCallback a w) = playbackCallback a w"
    and "a = START \<Longrightarrow> playbackCalls (playbackCallback a w) =
           playbackCalls w @ [if runnerReset w then HostStart else HostResume]"
    and "a = FINISH \<Longrightarrow> playbackCalls (playbackCallback a w) =
           playbackCalls w @ (if playState w = RUNNING then [HostFinish] else [])"
proof -
  show 1: "scheduledActivity (playbackCallback a w) = None"
    using assms
    by (cases a) (simp_all add: playbackCallback_def isActivityScheduled_def startWhenReady_def
        finishWhenReady_def resetFirstFrame_def Let_def views)
  show "playbackCallback b (playbackCallback a w) = playbackCallback a w"
    using playbackCallback_dropped(1)[OF 1] .
  show "a = START \<Longrightarrow> playbackCalls (playbackCallback a w) =
           playbackCalls w @ [if runnerReset w then HostStart else HostResume]"
    using assms by (simp add: playbackCallback_def isActivityScheduled_def startWhenReady_def Let_def)
  show "a = FINISH \<Longrightarrow> playbackCalls (playbackCallback a w) =
           playbackCalls w @ (if playState w = RUNNING then [HostFinish] else [])"
    using assms by (simp add: playbackCallback_def isActivityScheduled_def finishWhenReady_def)
qed





lemma gate_upd [simp]:
  "timerGate gt (scheduledActivity_update f1 w) t = timerGate gt w t"
  "timerGate gt (scheduledWait_update f2 w) t = timerGate gt w t"
  "timerGate gt (runner_update f3 w) t = timerGate gt w t"
  "timerGate gt (runnerReset_update f4 w) t = timerGate gt w t"
  "timerGate gt (firstFrameApplied_update f5 w) t = timerGate gt w t"
  "timerGate gt (playState_update f6 w) t = timerGate gt w t"
  "timerGate gt (keyframes_update f7 w) t = timerGate gt w t"
  "timerGate gt (effects_update f8 w) t = timerGate gt w t"
  "timerGate gt (microtasks_update f9 w) t = timerGate gt w t"
  "timerGate gt (vsyncQueue_update f10 w) t = timerGate gt w t"
  "timerGate gt (subscriptionPromises_update f12 w) t = timerGate gt w t"
  "depGate gd (scheduledActivity_update f1 w) t = depGate gd w t"
  "depGate gd (scheduledWait_update f2 w) t = depGate gd w t"
  "depGate gd (runner_update f3 w) t = depGate gd w t"
  "depGate gd (runnerReset_update f4 w) t = depGate gd w t"
  "depGate gd (firstFrameApplied_update f5 w) t = depGate gd w t"
  "depGate gd (playState_update f6 w) t = depGate gd w t"
  "depGate gd (keyframes_update f7 w) t = depGate gd w t"
  "depGate gd (effects_update f8 w) t = depGate gd w t"
  "depGate gd (microtasks_update f9 w) t = depGate gd w t"
  "depGate gd (vsyncQueue_update f10 w) t = depGate gd w t"
  "depGate gd (timers_update f11 w) t = depGate gd w t"
  by (simp_all add: timerGate_def depGate_def split: option.splits)

lemma heldReact_upd [simp]:
  "heldReact gd gt B (scheduledActivity_update f1 w) p k = heldReact gd gt B w p k"
  "heldReact gd gt B (scheduledWait_update f2 w) p k = heldReact gd gt B w p k"
  "heldReact gd gt B (runner_update f3 w) p k = heldReact gd gt B w p k"
  "heldReact gd gt B (runnerReset_update f4 w) p k = heldReact gd gt B w p k"
  "heldReact gd gt B (firstFrameApplied_update f5 w) p k = heldReact gd gt B w p k"
  "heldReact gd gt B (playState_update f6 w) p k = heldReact gd gt B w p k"
  "heldReact gd gt B (keyframes_update f7 w) p k = heldReact gd gt B w p k"
  "heldReact gd gt B (effects_update f8 w) p k = heldReact gd gt B w p k"
  "heldReact gd gt B (microtasks_update f9 w) p k = heldReact gd gt B w p k"
  "heldReact gd gt B (vsyncQueue_update f10 w) p k = heldReact gd gt B w p k"
  by (simp_all add: heldReact_def split: cont.splits)

lemma held_upd [simp]:
  "held gd gt B (scheduledActivity_update f1 w) = held gd gt B w"
  "held gd gt B (scheduledWait_update f2 w) = held gd gt B w"
  "held gd gt B (runner_update f3 w) = held gd gt B w"
  "held gd gt B (runnerReset_update f4 w) = held gd gt B w"
  "held gd gt B (firstFrameApplied_update f5 w) = held gd gt B w"
  "held gd gt B (playState_update f6 w) = held gd gt B w"
  "held gd gt B (keyframes_update f7 w) = held gd gt B w"
  "held gd gt B (effects_update f8 w) = held gd gt B w"
  by (simp_all add: held_def)

lemma held_logEffect [simp]: "held gd gt B (logEffect e w) = held gd gt B w"
  by (simp add: logEffect_def)













lemma timerGate_mono:
  "timerGate gt w t \<Longrightarrow> set (timers w) \<subseteq> set (timers w') \<Longrightarrow> timerGate gt w' t"
  by (auto simp: timerGate_def split: option.splits)





























lemma rw_prims [simp]:
  "resolvedWaits dep (promiseThen p k w) = resolvedWaits dep w"
  "resolvedWaits dep (resolve p w) = resolvedWaits dep w"
  "resolvedWaits dep (snd (newPromise w)) = resolvedWaits dep w"
  "resolvedWaits dep (snd (promiseResolve w)) = resolvedWaits dep w"
  "resolvedWaits dep (snd (waitFor i w)) = resolvedWaits dep w"
  "resolvedWaits dep (logEffect e w) = resolvedWaits dep w + (if e = WaitResolved dep then 1 else 0)"
  by (simp_all add: resolvedWaits_def views waitFor_fields)

lemma rw_upd [simp]:
  "resolvedWaits dep (scheduledActivity_update f1 w) = resolvedWaits dep w"
  "resolvedWaits dep (scheduledWait_update f2 w) = resolvedWaits dep w"
  "resolvedWaits dep (runner_update f3 w) = resolvedWaits dep w"
  "resolvedWaits dep (runnerReset_update f4 w) = resolvedWaits dep w"
  "resolvedWaits dep (firstFrameApplied_update f5 w) = resolvedWaits dep w"
  "resolvedWaits dep (playState_update f6 w) = resolvedWaits dep w"
  "resolvedWaits dep (keyframes_update f7 w) = resolvedWaits dep w"
  "resolvedWaits dep (microtasks_update f9 w) = resolvedWaits dep w"
  "resolvedWaits dep (vsyncQueue_update f10 w) = resolvedWaits dep w"
  "resolvedWaits dep (timers_update f11 w) = resolvedWaits dep w"
  "resolvedWaits dep (subscriptionPromises_update f12 w) = resolvedWaits dep w"
  by (simp_all add: resolvedWaits_def)






lemma rw_resetFirstFrame [simp]: "resolvedWaits dep (resetFirstFrame w) = resolvedWaits dep w"
  by (simp add: resetFirstFrame_def)




lemma rw_playbackCallback [simp]: "resolvedWaits dep (playbackCallback a w) = resolvedWaits dep w"
  by (simp add: playbackCallback_def startWhenReady_def finishWhenReady_def Let_def split: PlaybackActivity.splits)

lemma rw_runCont [simp]: "resolvedWaits dep (runCont k w) = resolvedWaits dep w"
  by (cases k) (simp_all add: runCont_def split_beta split: option.splits list.splits)

lemma rw_runMutation [simp]: "resolvedWaits dep (runMutation t w) = resolvedWaits dep w"
proof (cases t)
  case (MutApply q f)
  have "count_list (map (\<lambda>(k, v). SetStyle k v) xs) (WaitResolved dep) = 0" for xs
    by (induction xs) auto
  then show ?thesis using MutApply by (simp add: runMutation_def resolvedWaits_def resolve_fields)
next
  case (MutReset props)
  then show ?thesis by (simp add: runMutation_def)
qed

lemma rw_applyFirstFrame [simp]: "resolvedWaits dep (snd (applyFirstFrame w)) = resolvedWaits dep w"
  by (simp add: applyFirstFrame_def split_beta)









lemma kr_trans: "keptReact w v \<Longrightarrow> keptReact v w' \<Longrightarrow> keptReact w w'"
  unfolding keptReact_def by (meson order_trans subsetD)


lemma kr_upd [simp]:
  "keptReact w (scheduledActivity_update f1 v) = keptReact w v"
  "keptReact w (scheduledWait_update f2 v) = keptReact w v"
  "keptReact w (runner_update f3 v) = keptReact w v"
  "keptReact w (runnerReset_update f4 v) = keptReact w v"
  "keptReact w (firstFrameApplied_update f5 v) = keptReact w v"
  "keptReact w (playState_update f6 v) = keptReact w v"
  "keptReact w (keyframes_update f7 v) = keptReact w v"
  "keptReact w (effects_update f8 v) = keptReact w v"
  "keptReact w (microtasks_update f9 v) = keptReact w v"
  "keptReact w (vsyncQueue_update f10 v) = keptReact w v"
  "keptReact w (timers_update f11 v) = keptReact w v"
  "keptReact w (subscriptionPromises_update f12 v) = keptReact w v"
  "keptReact w (subscriptionResolvers_update f13 v) = keptReact w v"
  by (simp_all add: keptReact_def)

























lemma depStep_delay [simp]: "delay (snd (depStep x)) = delay (snd x)"
  by (simp add: depStep_def views split: option.splits)









section \<open>The claims\<close>




text \<open>
  C8. The constructor rejects a negative effective delay with the user error
  ``Negative delays are not allowed in amp-story entrance animations.'' and accepts every
  effective delay that is zero or positive; it has no other failing result.
\<close>

theorem C8_negative_delay_rejected:
  "(orDefault (def_delay d) (preset_delay (def_preset d)) < 0 \<longrightarrow>
      AnimationRunner_new d =
        Inl (UserError ''Negative delays are not allowed in amp-story entrance animations.'' []))
   \<and> (0 \<le> orDefault (def_delay d) (preset_delay (def_preset d)) \<longrightarrow>
      (\<exists>w. AnimationRunner_new d = Inr w \<and>
           delay w = orDefault (def_delay d) (preset_delay (def_preset d))))"
  by (auto simp: AnimationRunner_new_def Let_def promiseThen_def
           split: if_splits option.splits KeyframesOrFilterFnDef.splits)

theorem C8_witness:
  "AnimationRunner_new exDefNegative =
     Inl (UserError ''Negative delays are not allowed in amp-story entrance animations.'' [])
   \<and> (\<exists>w. AnimationRunner_new exDefZero = Inr w \<and> delay w = 200)"
  using C8_negative_delay_rejected [of exDefNegative] C8_negative_delay_rejected [of exDefZero]
  by (simp add: exDefNegative_def exDefZero_def exPreset_def orDefault_def)

text \<open>
  C9. The effective delay and the effective duration are the declared value when it is
  truthy, else the preset's default when that is truthy, else 0; so a declared value of
  exactly 0 gives way to a nonzero preset default.
\<close>

theorem C9_truthiness_fallback:
  assumes "AnimationRunner_new d = Inr w"
  shows "delay w =
           (if truthyNum (def_delay d) then the (def_delay d)
            else if truthyNum (preset_delay (def_preset d)) then the (preset_delay (def_preset d))
            else 0)
       \<and> duration w =
           (if truthyNum (def_duration d) then the (def_duration d)
            else if truthyNum (preset_duration (def_preset d)) then the (preset_duration (def_preset d))
            else 0)
       \<and> (def_delay d = Some 0 \<longrightarrow> truthyNum (preset_delay (def_preset d)) \<longrightarrow>
            delay w = the (preset_delay (def_preset d)))
       \<and> (def_duration d = Some 0 \<longrightarrow> truthyNum (preset_duration (def_preset d)) \<longrightarrow>
            duration w = the (preset_duration (def_preset d)))"
  using assms
  by (auto simp: AnimationRunner_new_def Let_def promiseThen_def orDefault_def truthyNum_def
           split: if_splits option.splits KeyframesOrFilterFnDef.splits)

theorem C9_witness:
  "\<exists>w. AnimationRunner_new exDefZero = Inr w \<and> delay w = 200 \<and> duration w = 500"
proof -
  obtain w where w: "AnimationRunner_new exDefZero = Inr w"
    by (simp add: AnimationRunner_new_def exDefZero_def exPreset_def Let_def orDefault_def
        promiseThen_def)
  from C9_truthiness_fallback [OF w] have "delay w = 200 \<and> duration w = 500"
    by (simp add: exDefZero_def exPreset_def truthyNum_def)
  with w show ?thesis by blast
qed

text \<open>
  C10. \<^verbatim>\<open>cancel()\<close> empties the scheduled-activity slot before it asks whether the animation
  has started: it never throws, and it calls the host runner's \<^verbatim>\<open>cancel\<close> and sets
  \<^verbatim>\<open>runnerReset_\<close> exactly when the host runner has resolved and reports RUNNING, whatever
  was scheduled.
\<close>

theorem C10_cancel_clears_slot_first:
  "\<exists>w'. cancel w = Inr w'
     \<and> scheduledActivity w' = None \<and> scheduledWait w' = None
     \<and> effects w' = effects w @ (if runner w \<and> playState w = RUNNING then [HostCancel] else [])
     \<and> runnerReset w' = (if runner w \<and> playState w = RUNNING then True else runnerReset w)"
  by (auto simp: cancel_def Let_def hasStarted_def isActivityScheduled_def logEffect_def)

theorem C10_witness:
  "effectsOf (newRun exDefA [CallStart, CallCancel]) = Some []"
proof -
  obtain w where w: "newRun exDefA [CallStart] = Inr w" and e: "effects w = []" and r: "\<not> runner w"
    by (simp add: newRun_def AnimationRunner_new_def exDefA_def exPresetNoDelay_def Let_def orDefault_def
        step_def start_def hasStarted_def isActivityScheduled_def getStartWaitPromise_def playback_def
        promiseResolve_def promiseThen_def keyframesPromise_def)
  from C10_cancel_clears_slot_first [of w] obtain w' where "cancel w = Inr w'" "effects w' = []"
    using e r by auto
  moreover have "newRun exDefA [CallStart, CallCancel] = (case newRun exDefA [CallStart] of Inl e \<Rightarrow> Inl e | Inr v \<Rightarrow> cancel v)"
    by (simp add: newRun_def step_def split: sum.splits)
  ultimately show ?thesis using w by (simp add: effectsOf_def)
qed

text \<open>
  C3. In every state a runner can reach, for every id \<open>i\<close>: \<^verbatim>\<open>waitFor(i)\<close> returns a
  pending promise; a second \<^verbatim>\<open>waitFor(i)\<close> returns the same promise and changes nothing;
  \<^verbatim>\<open>notifyFinish(i)\<close> resolves that promise and deletes the in-flight wait, so that the
  next \<^verbatim>\<open>waitFor(i)\<close> returns a new pending promise; \<^verbatim>\<open>notifyFinish\<close> of another id
  leaves the promise pending and in flight; \<^verbatim>\<open>notifyFinish(i)\<close> without an in-flight wait
  only adds its call to the log; and no in-flight wait is ever resolved.
\<close>

theorem C3_sequence_contract:
  assumes "AnimationRunner_new d = Inr w0" and "run evs w0 = Inr w"
  shows "fst (waitFor i w) \<notin> resolved (snd (waitFor i w))
       \<and> waitFor i (snd (waitFor i w)) = waitFor i w
       \<and> (\<exists>w'. notifyFinish i (snd (waitFor i w)) = Inr w'
              \<and> fst (waitFor i w) \<in> resolved w' \<and> subscriptionPromises w' i = None
              \<and> fst (waitFor i w') \<noteq> fst (waitFor i w)
              \<and> fst (waitFor i w') \<notin> resolved (snd (waitFor i w')))
       \<and> (\<forall>j. j \<noteq> i \<longrightarrow>
             (\<exists>w'. notifyFinish j (snd (waitFor i w)) = Inr w'
                 \<and> fst (waitFor i w) \<notin> resolved w'
                 \<and> subscriptionPromises w' i = Some (fst (waitFor i w))))
       \<and> (subscriptionPromises w i = None \<longrightarrow> notifyFinish i w = Inr (logEffect (NotifyFinish i) w))
       \<and> (\<forall>p \<in> inFlight w. p \<notin> resolved w)"
proof -
  let ?p = "fst (waitFor i w)"
  let ?w1 = "snd (waitFor i w)"
  have iw: "runnerInv w" using reachable_inv(1)[OF assms] .
  then have wf: "wellformed w" by (rule invD)
  have i1: "runnerInv ?w1" using iw by (rule inv_waitFor)
  then have wf1: "wellformed ?w1" by (rule invD)
  have sp: "subscriptionPromises ?w1 i = Some ?p" by (simp add: waitFor_fields)
  have A: "?p \<notin> resolved ?w1" using waitFor_pending(1)[OF wf] .
  have B: "waitFor i ?w1 = waitFor i w" using sp by (simp add: waitFor_Some)
  have C: "\<exists>w'. notifyFinish i ?w1 = Inr w'
              \<and> ?p \<in> resolved w' \<and> subscriptionPromises w' i = None
              \<and> fst (waitFor i w') \<noteq> ?p
              \<and> fst (waitFor i w') \<notin> resolved (snd (waitFor i w'))"
  proof -
    from inv_notifyFinish[OF i1, of i] obtain w' where n: "notifyFinish i ?w1 = Inr w'" and i': "runnerInv w'"
      by blast
    have sr: "subscriptionResolvers ?w1 i = Some ?p" using wellformedD(1)[OF wf1 sp] .
    have e: "w' = (resolve ?p (logEffect (WaitResolved i) (logEffect (NotifyFinish i) ?w1)))
            \<lparr>subscriptionPromises := (subscriptionPromises ?w1)(i := None)\<rparr>"
      using n notifyFinish_Some[OF sp sr] by simp
    have 1: "?p \<in> resolved w'" "subscriptionPromises w' i = None" "nextPid w' = nextPid ?w1"
      unfolding e by (simp_all add: views)
    have "fst (waitFor i w') = nextPid ?w1" using 1(2,3) by (simp add: waitFor_None)
    then have 2: "fst (waitFor i w') \<noteq> ?p" using waitFor_pending(2)[OF wf, of i] by simp
    have 3: "fst (waitFor i w') \<notin> resolved (snd (waitFor i w'))"
      using waitFor_pending(1)[OF invD(1)[OF i']] .
    show ?thesis using n 1 2 3 by blast
  qed
  have D: "\<exists>w'. notifyFinish j ?w1 = Inr w' \<and> ?p \<notin> resolved w' \<and> subscriptionPromises w' i = Some ?p"
    if "j \<noteq> i" for j
  proof -
    from inv_notifyFinish[OF i1, of j] obtain w' where n: "notifyFinish j ?w1 = Inr w'" and i': "runnerInv w'"
      by blast
    have s: "subscriptionPromises w' i = Some ?p" using notifyFinish_other[OF n that] sp by simp
    then have "?p \<in> inFlight w'" by (auto simp: inFlight_iff)
    then have "?p \<notin> resolved w'" using wellformedD(3)[OF invD(1)[OF i']] by blast
    then show ?thesis using n s by blast
  qed
  have E: "subscriptionPromises w i = None \<longrightarrow> notifyFinish i w = Inr (logEffect (NotifyFinish i) w)"
    by (simp add: notifyFinish_None)
  have F: "\<forall>p \<in> inFlight w. p \<notin> resolved w" using wellformedD(3)[OF wf] by blast
  show ?thesis using A B C D E F by blast
qed

theorem C3_witness:
  "\<exists>w0 w. AnimationRunner_new exDefA = Inr w0 \<and> run [OtherWaitFor ''b''] w0 = Inr w
     \<and> fst (waitFor ''a'' w) = 2 \<and> fst (waitFor ''b'' w) = 1
     \<and> fst (waitFor ''a'' w) \<notin> resolved (snd (waitFor ''a'' w))
     \<and> (\<forall>p \<in> inFlight w. p \<notin> resolved w)"
proof -
  obtain w0 w where n: "AnimationRunner_new exDefA = Inr w0" and r: "run [OtherWaitFor ''b''] w0 = Inr w"
    and f: "fst (waitFor ''a'' w) = 2" "fst (waitFor ''b'' w) = 1"
    by (simp add: eval_defs)
  from C3_sequence_contract [OF n r, of "''a''"] n r f show ?thesis by blast
qed

text \<open>
  C7. \<^verbatim>\<open>applyFirstFrame()\<close> on a runner whose first frame is not applied registers one
  style mutation and sets \<^verbatim>\<open>firstFrameApplied_\<close>; a second call without a reset in between
  only returns a promise that is already resolved: it registers no further mutation, writes
  no style, and \<^verbatim>\<open>firstFrameApplied_\<close> stays true.
\<close>

theorem C7_applyFirstFrame_idempotent:
  assumes "\<not> firstFrameApplied w"
  shows "firstFrameApplied (snd (applyFirstFrame w))
       \<and> pendingApplies (snd (applyFirstFrame w)) = Suc (pendingApplies w)
       \<and> snd (applyFirstFrame (snd (applyFirstFrame w))) =
           (snd (applyFirstFrame w))
             \<lparr>nextPid := Suc (nextPid (snd (applyFirstFrame w))),
              resolved := insert (nextPid (snd (applyFirstFrame w))) (resolved (snd (applyFirstFrame w)))\<rparr>
       \<and> fst (applyFirstFrame (snd (applyFirstFrame w)))
           \<in> resolved (snd (applyFirstFrame (snd (applyFirstFrame w))))
       \<and> firstFrameApplied (snd (applyFirstFrame (snd (applyFirstFrame w))))
       \<and> pendingApplies (snd (applyFirstFrame (snd (applyFirstFrame w)))) = Suc (pendingApplies w)
       \<and> effects (snd (applyFirstFrame (snd (applyFirstFrame w)))) = effects w
       \<and> vsyncQueue (snd (applyFirstFrame (snd (applyFirstFrame w)))) = vsyncQueue w"
proof -
  let ?w1 = "snd (applyFirstFrame w)"
  have e1: "?w1 = promiseThen keyframesPromise (CApplyFirstFrame (nextPid w))
                   (snd (newPromise (w\<lparr>firstFrameApplied := True\<rparr>)))"
    using assms by (simp add: applyFirstFrame_def split_beta views)
  have f1: "firstFrameApplied ?w1" unfolding e1 by (simp add: views)
  have p1: "pendingApplies ?w1 = Suc (pendingApplies w)"
    unfolding e1 by (simp add: pendingApplies_def promiseThen_queues views)
  have e2: "applyFirstFrame ?w1 = promiseResolve ?w1"
    using f1 by (simp add: applyFirstFrame_def)
  show ?thesis
    using f1 p1 unfolding e2
    by (simp add: promiseResolve_def pendingApplies_def, simp add: e1 views)
qed

theorem C7_witness:
  "effectsOf (newRun exDefA [CallApplyFirstFrame, CallApplyFirstFrame, Tick, Tick, Tick, VsyncMutate, VsyncMutate])
     = Some [SetStyle ''opacity'' ''0'']
   \<and> (\<exists>w. AnimationRunner_new exDefA = Inr w \<and> \<not> firstFrameApplied w
        \<and> pendingApplies (snd (applyFirstFrame (snd (applyFirstFrame w)))) = 1)"
proof -
  obtain w where n: "AnimationRunner_new exDefA = Inr w" and f: "\<not> firstFrameApplied w"
    and p: "pendingApplies w = 0"
    by (simp add: eval_defs pendingApplies_def)
  have "effectsOf (newRun exDefA [CallApplyFirstFrame, CallApplyFirstFrame, Tick, Tick, Tick, VsyncMutate, VsyncMutate])
     = Some [SetStyle ''opacity'' ''0'']"
    by (simp add: eval_defs)
  with C7_applyFirstFrame_idempotent [OF f] n f p show ?thesis by auto
qed

text \<open>
  C5, as amended. When the animatable elements are resolved in document order and an
  element names a preset that is not in the preset table, while the elements before it
  resolved, \<^verbatim>\<open>getOrCreateRunners_\<close> throws the user error that carries the attribute
  name, the invalid value and the element. No runner list is returned or stored: the
  resolution of the siblings does not complete.
\<close>

theorem C5_unknown_preset_aborts:
  assumes "runners m = None"
    and "filter (\<lambda>el. hasAttribute el ANIMATE_IN_ATTRIBUTE_NAME) (root m) = pre @ el # post"
    and "mapE (createRunner PRESETS timeStrToMillis m) pre = Inr rs"
    and "getAttribute el ANIMATE_IN_ATTRIBUTE_NAME = Some name"
    and "PRESETS name = None"
  shows "getOrCreateRunners PRESETS timeStrToMillis m =
           Inl (UserError (''Invalid %s preset '' @ [dquote] @ ''%s'' @ [dquote] @ '' for element %s'')
                  [ArgStr ANIMATE_IN_ATTRIBUTE_NAME, ArgStr name, ArgEl el])"
proof -
  have "createRunner PRESETS timeStrToMillis m el =
          Inl (UserError (''Invalid %s preset '' @ [dquote] @ ''%s'' @ [dquote] @ '' for element %s'')
                  [ArgStr ANIMATE_IN_ATTRIBUTE_NAME, ArgStr name, ArgEl el])"
    using assms(4,5) by (simp add: createRunner_def getPreset_def)
  from mapE_append_fail[OF assms(3) this] show ?thesis
    using assms(1,2) by (simp add: getOrCreateRunners_def)
qed

theorem C5_witness:
  "runners exManager = None
   \<and> filter (\<lambda>el. hasAttribute el ANIMATE_IN_ATTRIBUTE_NAME) (root exManager) = [exElementA] @ exElementZ # [exElementB]
   \<and> (\<exists>rs. mapE (createRunner exPRESETS exTimeStrToMillis exManager) [exElementA] = Inr rs)
   \<and> getOrCreateRunners exPRESETS exTimeStrToMillis exManager =
       Inl (UserError (''Invalid %s preset '' @ [dquote] @ ''%s'' @ [dquote] @ '' for element %s'')
              [ArgStr ANIMATE_IN_ATTRIBUTE_NAME, ArgStr ''zoooom'', ArgEl exElementZ])"
proof -
  have 1: "runners exManager = None" by (simp add: exManager_def)
  have 2: "filter (\<lambda>el. hasAttribute el ANIMATE_IN_ATTRIBUTE_NAME) (root exManager) = [exElementA] @ exElementZ # [exElementB]"
    by (simp add: exManager_def hasAttribute_def getAttribute_def ANIMATE_IN_ATTRIBUTE_NAME_def
        exElementA_def exElementB_def exElementZ_def)
  obtain rs where 3: "mapE (createRunner exPRESETS exTimeStrToMillis exManager) [exElementA] = Inr rs"
    by (simp add: exManager_def hasAttribute_def getAttribute_def
      ANIMATE_IN_ATTRIBUTE_NAME_def ANIMATE_IN_DURATION_ATTRIBUTE_NAME_def ANIMATE_IN_DELAY_ATTRIBUTE_NAME_def
      ANIMATE_IN_AFTER_ATTRIBUTE_NAME_def
      exElementA_def createRunner_def getPreset_def exPRESETS_def
      createAnimationDef_def AnimationRunner_new_def exPreset_def Let_def orDefault_def promiseThen_def
      keyframesPromise_def)
  have 4: "getAttribute exElementZ ANIMATE_IN_ATTRIBUTE_NAME = Some ''zoooom''"
    by (simp add: getAttribute_def ANIMATE_IN_ATTRIBUTE_NAME_def exElementZ_def)
  have 5: "exPRESETS ''zoooom'' = None" by (simp add: exPRESETS_def)
  from C5_unknown_preset_aborts [OF 1 2 3 4 5] 1 2 3 show ?thesis by blast
qed

theorem C5_counterexample:
  "getOrCreateRunners exPRESETS exTimeStrToMillis exManager =
     Inl (UserError (''Invalid %s preset '' @ [dquote] @ ''%s'' @ [dquote] @ '' for element %s'')
            [ArgStr ''animate-in'', ArgStr ''zoooom'', ArgEl exElementZ])"
  by (simp add: getOrCreateRunners_def exManager_def hasAttribute_def getAttribute_def
      ANIMATE_IN_ATTRIBUTE_NAME_def ANIMATE_IN_DURATION_ATTRIBUTE_NAME_def ANIMATE_IN_DELAY_ATTRIBUTE_NAME_def
      ANIMATE_IN_AFTER_ATTRIBUTE_NAME_def
      exElementA_def exElementB_def exElementZ_def createRunner_def getPreset_def exPRESETS_def
      createAnimationDef_def AnimationRunner_new_def exPreset_def Let_def orDefault_def promiseThen_def
      keyframesPromise_def)

text \<open>
  C6, as amended. In every state a runner can reach, \<^verbatim>\<open>finish()\<close> does not throw, whether
  or not \<^verbatim>\<open>start()\<close> was ever called, and schedules FINISH. When the first frame is applied
  and the target has an id, it calls \<^verbatim>\<open>notifyFinish\<close> with that id, which resolves the wait
  in flight for the id, and only queues the reset of the first-frame styles, so the
  notification comes before the reset. When the first frame is not applied, it notifies
  nothing and every wait in flight stays pending.
\<close>

theorem C6_finish_notifies_when_first_frame_applied:
  assumes "AnimationRunner_new d = Inr w0" and "run evs w0 = Inr w"
  shows "\<exists>w'. finish w = Inr w' \<and> scheduledActivity w' = Some FINISH \<and> \<not> firstFrameApplied w'
            \<and> vsyncQueue w' = vsyncQueue w
            \<and> (\<forall>e \<in> set (effects w'). e \<in> set (effects w) \<or> e = NotifyFinish (el_id (def_target d))
                   \<or> e = WaitResolved (el_id (def_target d)))
            \<and> (firstFrameApplied w \<and> el_id (def_target d) \<noteq> [] \<longrightarrow>
                  NotifyFinish (el_id (def_target d)) \<in> set (effects w')
                  \<and> (\<forall>p. subscriptionPromises w (el_id (def_target d)) = Some p \<longrightarrow> p \<in> resolved w')
                  \<and> subscriptionPromises w' (el_id (def_target d)) = None
                  \<and> CResetFirstFrame \<in> conts w')
            \<and> (\<not> firstFrameApplied w \<longrightarrow>
                  effects w' = effects w \<and> subscriptionPromises w' = subscriptionPromises w
                  \<and> (\<forall>p \<in> inFlight w'. p \<notin> resolved w'))"
proof -
  let ?i = "el_id (def_target d)"
  note R = reachable_inv[OF assms]
  have wf: "wellformed w" using R(1) by (rule invD)
  from inv_finish[OF R(1)] obtain w' where f: "finish w = Inr w'" and i': "runnerInv w'" by blast
  have pend: "\<forall>p \<in> inFlight w'. p \<notin> resolved w'" using wellformedD(3)[OF invD(1)[OF i']] by blast
  show ?thesis
  proof (cases "firstFrameApplied w")
    case False
    then have p: "playback FINISH None w = Inr w'"
      using f by (simp add: finish_def resetFirstFrame_def)
    note P = playback_fields[OF p]
    show ?thesis using f P False pend by simp
  next
    case True
    show ?thesis
    proof (cases "?i = []")
      case e: True
      let ?w2 = "promiseThen keyframesPromise CResetFirstFrame (w\<lparr>firstFrameApplied := False\<rparr>)"
      have p: "playback FINISH None ?w2 = Inr w'"
        using f True e R(3) by (simp add: finish_def runner_notifyFinish_def resetFirstFrame_def)
      note P = playback_fields[OF p]
      show ?thesis using f P True e by (simp add: views)
    next
      case ne: False
      show ?thesis
      proof (cases "subscriptionPromises w ?i")
        case None
        let ?w1 = "logEffect (NotifyFinish ?i) w"
        let ?w2 = "promiseThen keyframesPromise CResetFirstFrame (?w1\<lparr>firstFrameApplied := False\<rparr>)"
        have p: "playback FINISH None ?w2 = Inr w'"
          using f True ne R(3) None
          by (simp add: finish_def runner_notifyFinish_def notifyFinish_None resetFirstFrame_def views)
        note P = playback_fields[OF p]
        have c: "CResetFirstFrame \<in> conts w'" using P(7) by (auto simp: views)
        show ?thesis using f P(1-6) c True ne None by (simp add: views)
      next
        case (Some q)
        have sr: "subscriptionResolvers w ?i = Some q" using wellformedD(1)[OF wf Some] .
        let ?w1 = "(resolve q (logEffect (WaitResolved ?i) (logEffect (NotifyFinish ?i) w)))
                     \<lparr>subscriptionPromises := (subscriptionPromises w)(?i := None)\<rparr>"
        let ?w2 = "promiseThen keyframesPromise CResetFirstFrame (?w1\<lparr>firstFrameApplied := False\<rparr>)"
        have p: "playback FINISH None ?w2 = Inr w'"
          using f True ne R(3)
          by (simp add: finish_def runner_notifyFinish_def notifyFinish_Some[OF Some sr] resetFirstFrame_def views)
        note P = playback_fields[OF p]
        have c: "CResetFirstFrame \<in> conts w'" using P(7) by (auto simp: views)
        have r: "q \<in> resolved w'" using P(2) by (auto simp: views)
        show ?thesis using f P(1,3-6) c r True ne Some by (simp add: views)
      qed
    qed
  qed
qed

theorem C6_witness:
  "effectsOf (newRun exDefA [CallApplyFirstFrame, OtherWaitFor ''a'', CallFinish])
     = Some [NotifyFinish ''a'', WaitResolved ''a'']
   \<and> \<not> pendingWaitOf ''a'' (newRun exDefA [CallApplyFirstFrame, OtherWaitFor ''a'', CallFinish])"
proof -
  obtain w0 w where n: "AnimationRunner_new exDefA = Inr w0"
    and r: "run [CallApplyFirstFrame, OtherWaitFor ''a''] w0 = Inr w"
    and e: "effects w = []" "firstFrameApplied w"
    by (simp add: eval_defs)
  from C6_finish_notifies_when_first_frame_applied [OF n r] obtain w' where "finish w = Inr w'"
    by blast
  moreover have "newRun exDefA [CallApplyFirstFrame, OtherWaitFor ''a'', CallFinish] = finish w"
    using n r by (simp add: newRun_def step_def split: sum.splits)
  moreover have "effectsOf (newRun exDefA [CallApplyFirstFrame, OtherWaitFor ''a'', CallFinish])
     = Some [NotifyFinish ''a'', WaitResolved ''a'']"
    "\<not> pendingWaitOf ''a'' (newRun exDefA [CallApplyFirstFrame, OtherWaitFor ''a'', CallFinish])"
    by (simp_all add: eval_defs)
  ultimately show ?thesis by simp
qed

theorem C6_counterexample:
  "effectsOf (newRun exDefA [CallApplyFirstFrame, CallFinish, CallFinish]) = Some [NotifyFinish ''a'']
   \<and> effectsOf (newRun exDefA [CallApplyFirstFrame, CallFinish, OtherWaitFor ''a'', CallFinish])
       = Some [NotifyFinish ''a'']
   \<and> pendingWaitOf ''a'' (newRun exDefA [CallApplyFirstFrame, CallFinish, OtherWaitFor ''a'', CallFinish])
   \<and> effectsOf (newRun exDefA [OtherWaitFor ''a'', CallFinish]) = Some []
   \<and> pendingWaitOf ''a'' (newRun exDefA [OtherWaitFor ''a'', CallFinish])"
  by (simp add: eval_defs)

text \<open>
  C4. A runner on which \<^verbatim>\<open>cancel()\<close> is called before the host runner has resolved,
  whatever was scheduled: \<^verbatim>\<open>cancel()\<close> does not throw, and in every run of events after it
  that holds no further \<^verbatim>\<open>start()\<close> or \<^verbatim>\<open>finish()\<close> call (the host runner resolving,
  microtasks, timers, notifications, play state changes) the host runner's \<^verbatim>\<open>start\<close>,
  \<^verbatim>\<open>resume\<close> and \<^verbatim>\<open>finish\<close> are never called.
\<close>

theorem C4_cancel_before_runner_resolves:
  assumes "AnimationRunner_new d = Inr w0" and "run pre w0 = Inr w1" and "\<not> runner w1"
    and "CallStart \<notin> set post" and "CallFinish \<notin> set post"
  shows "\<exists>w2 w3. cancel w1 = Inr w2 \<and> run post w2 = Inr w3
           \<and> HostStart \<notin> set (effects w3) \<and> HostResume \<notin> set (effects w3)
           \<and> HostFinish \<notin> set (effects w3)"
proof -
  have i1: "runnerInv w1" using reachable_inv(1)[OF assms(1,2)] .
  from inv_cancel[OF i1] obtain w2 where c: "cancel w1 = Inr w2" and i2: "runnerInv w2" by blast
  from inv_run[OF i2, of post] obtain w3 where r: "run post w2 = Inr w3" by blast
  have e: "w2 = w1\<lparr>scheduledActivity := None, scheduledWait := None\<rparr>"
    using c assms(3) by (simp add: cancel_def Let_def hasStarted_def isActivityScheduled_def)
  have "\<forall>k \<in> conts w1. \<not> isPlayback k" "\<forall>e \<in> set (effects w1). \<not> isHostCall e"
    using wellformedD(8)[OF invD(1)[OF i1] assms(3)] by simp_all
  then have "quiet w2" unfolding e
    by (auto simp: quiet_def playbackCalls_def filter_empty_conv conts_def dest: isPlaybackCall_isHostCall)
  from quiet_run[OF this assms(4,5) r] have "playbackCalls w3 = []" by (simp add: quiet_def)
  then have "HostStart \<notin> set (effects w3) \<and> HostResume \<notin> set (effects w3) \<and> HostFinish \<notin> set (effects w3)"
    by (auto simp: playbackCalls_def filter_empty_conv)
  then show ?thesis using c r by blast
qed

theorem C4_witness:
  "\<exists>w0 w1 w2 w3. AnimationRunner_new exDefA = Inr w0 \<and> run [CallApplyFirstFrame, CallStart] w0 = Inr w1
     \<and> scheduledActivity w1 = Some START \<and> \<not> runner w1
     \<and> cancel w1 = Inr w2 \<and> run [RunnerReady, Tick, Tick, Tick, VsyncMutate] w2 = Inr w3
     \<and> runner w3 \<and> effects w3 = [SetStyle ''opacity'' ''0'']
     \<and> HostStart \<notin> set (effects w3) \<and> HostResume \<notin> set (effects w3) \<and> HostFinish \<notin> set (effects w3)"
proof -
  obtain w0 w1 where n: "AnimationRunner_new exDefA = Inr w0"
    and r: "run [CallApplyFirstFrame, CallStart] w0 = Inr w1"
    and s: "scheduledActivity w1 = Some START" "\<not> runner w1"
    and v: "\<exists>w2 w3. cancel w1 = Inr w2 \<and> run [RunnerReady, Tick, Tick, Tick, VsyncMutate] w2 = Inr w3
              \<and> runner w3 \<and> effects w3 = [SetStyle ''opacity'' ''0'']"
    by (simp add: eval_defs)
  from C4_cancel_before_runner_resolves [OF n r s(2), of "[RunnerReady, Tick, Tick, Tick, VsyncMutate]"]
  obtain w2 w3 where c: "cancel w1 = Inr w2" "run [RunnerReady, Tick, Tick, Tick, VsyncMutate] w2 = Inr w3"
    "HostStart \<notin> set (effects w3)" "HostResume \<notin> set (effects w3)" "HostFinish \<notin> set (effects w3)"
    by auto
  from v c(1,2) have "runner w3 \<and> effects w3 = [SetStyle ''opacity'' ''0'']" by auto
  with n r s c show ?thesis by blast
qed

text \<open>
  C2, as amended. In every state a runner can reach: before the host runner has resolved,
  no playback callback is registered and the host runner's \<^verbatim>\<open>start\<close>, \<^verbatim>\<open>resume\<close> and
  \<^verbatim>\<open>finish\<close> have not been called; a callback that is still registered waits on a pending
  promise; the only event that adds such a host call is the microtask that runs a playback
  callback. A callback that fires with the slot empty does nothing, a FINISH callback does
  nothing unless the slot holds FINISH, and a callback that fires while the slot holds its
  kind executes once and empties the slot, so that a later callback does nothing. The slot
  holds the kind of the activity only: of two callbacks of one kind the one that fires
  first executes, also when it is the older one.
\<close>

theorem C2_scheduled_activity_execution:
  assumes "AnimationRunner_new d = Inr w0" and "run evs w0 = Inr w"
  shows "(\<not> runner w \<longrightarrow> playbackCalls w = [] \<and> (\<forall>k \<in> conts w. \<not> isPlayback k))
       \<and> (\<forall>r \<in> set (reactions w). fst r \<notin> resolved w)
       \<and> (\<forall>ev w'. step ev w = Inr w' \<longrightarrow> playbackCalls w' \<noteq> playbackCalls w \<longrightarrow>
             ev = Tick \<and> (\<exists>b ks. microtasks w = CPlayback b # ks))
       \<and> (scheduledActivity w = None \<longrightarrow> playbackCallback a w = w)
       \<and> (scheduledActivity w \<noteq> Some FINISH \<longrightarrow> playbackCallback FINISH w = w)
       \<and> (scheduledActivity w = Some a \<longrightarrow>
             scheduledActivity (playbackCallback a w) = None
             \<and> (\<forall>b. playbackCallback b (playbackCallback a w) = playbackCallback a w)
             \<and> (a = START \<longrightarrow> playbackCalls (playbackCallback a w) =
                   playbackCalls w @ [if runnerReset w then HostStart else HostResume])
             \<and> (a = FINISH \<longrightarrow> playbackCalls (playbackCallback a w) =
                   playbackCalls w @ (if playState w = RUNNING then [HostFinish] else [])))"
proof -
  note R = reachable_inv[OF assms]
  have A: "\<not> runner w \<longrightarrow> playbackCalls w = [] \<and> (\<forall>k \<in> conts w. \<not> isPlayback k)"
    using wellformedD(8)[OF invD(1)[OF R(1)]]
    by (auto simp: playbackCalls_def filter_empty_conv dest: isPlaybackCall_isHostCall)
  have "reactPending w" using rp_run[OF inv_new[OF assms(1)] rp_new[OF assms(1)] assms(2)] .
  then have B: "\<forall>r \<in> set (reactions w). fst r \<notin> resolved w" by (simp add: reactPending_def)
  have C: "\<forall>ev w'. step ev w = Inr w' \<longrightarrow> playbackCalls w' \<noteq> playbackCalls w \<longrightarrow>
             ev = Tick \<and> (\<exists>b ks. microtasks w = CPlayback b # ks)"
    using playbackCalls_step by blast
  have D: "scheduledActivity w = None \<longrightarrow> playbackCallback a w = w"
    "scheduledActivity w \<noteq> Some FINISH \<longrightarrow> playbackCallback FINISH w = w"
    using playbackCallback_dropped by blast+
  have E: "scheduledActivity w = Some a \<longrightarrow>
             scheduledActivity (playbackCallback a w) = None
             \<and> (\<forall>b. playbackCallback b (playbackCallback a w) = playbackCallback a w)
             \<and> (a = START \<longrightarrow> playbackCalls (playbackCallback a w) =
                   playbackCalls w @ [if runnerReset w then HostStart else HostResume])
             \<and> (a = FINISH \<longrightarrow> playbackCalls (playbackCallback a w) =
                   playbackCalls w @ (if playState w = RUNNING then [HostFinish] else []))"
    using playbackCallback_executes by blast
  show ?thesis using A B C D E by blast
qed

theorem C2_witness:
  "\<exists>w0 w. AnimationRunner_new exDefA = Inr w0 \<and> run [CallStart, CallFinish] w0 = Inr w
     \<and> \<not> runner w \<and> scheduledActivity w = Some FINISH \<and> playbackCalls w = []
     \<and> scheduledActivity (playbackCallback FINISH w) = None
     \<and> playbackCallback START (playbackCallback FINISH w) = playbackCallback FINISH w"
proof -
  obtain w0 w where n: "AnimationRunner_new exDefA = Inr w0" and r: "run [CallStart, CallFinish] w0 = Inr w"
    and s: "\<not> runner w" "scheduledActivity w = Some FINISH"
    by (simp add: eval_defs)
  from C2_scheduled_activity_execution [OF n r, of FINISH] n r s show ?thesis by blast
qed

theorem C2_counterexample:
  "effectsOf (newRun exDefB [Tick, RunnerReady, CallStart, Tick, OtherNotifyFinish ''a'', CallCancel,
       CallStart, Tick, Tick, Tick])
     = Some [NotifyFinish ''a'', WaitResolved ''a'', HostStart]
   \<and> pendingWaitOf ''a'' (newRun exDefB [Tick, RunnerReady, CallStart, Tick, OtherNotifyFinish ''a'', CallCancel,
       CallStart, Tick, Tick, Tick])
   \<and> effectsOf (newRun exDefA [Tick, RunnerReady, CallStart, Tick, PlayStateChanged RUNNING,
       CallFinish, CallFinish, Tick])
     = Some [HostStart, HostFinish]
   \<and> microtasksOf (newRun exDefA [Tick, RunnerReady, CallStart, Tick, PlayStateChanged RUNNING,
       CallFinish, CallFinish, Tick])
     = Some [CPlayback FINISH]"
  by (simp add: eval_defs)

end
